theory Spec2Isabelle
  imports Complex_Main "HOL-Library.AList" "HOL-Library.Log_Nat"
begin

section \<open>JavaScript values and primitives used by the server\<close>

text \<open>
  The server (\<^verbatim>\<open>src/index.ts\<close>, class \<^verbatim>\<open>SequentialThinkingServer\<close>) is TypeScript
  running on a JavaScript engine. The parts of the language its behaviour depends on are
  written out here: truthiness, property lookup through \<^verbatim>\<open>Object.prototype\<close>, the
  enumeration order of own property keys, the stable \<^verbatim>\<open>Array.prototype.sort\<close>,
  splitting on a regular expression, and double-precision arithmetic.

  Strings are lists of 8-bit characters read as the code units U+0000 to U+00FF; numbers
  supplied by the caller are integers (the tool schema declares them \<^verbatim>\<open>integer\<close>), and
  every division or multiplication the code performs on them is rounded to the nearest
  double as the engine does. Console output (\<^verbatim>\<open>console.error\<close>, \<^verbatim>\<open>chalk\<close>) is
  not part of the model.
\<close>

datatype jsval =
    JUndefined
  | JNull
  | JBool bool
  | JNum int
  | JStr string
  | JObj string \<comment> \<open>an object, array or function, with the string it converts to\<close>

fun truthy :: "jsval \<Rightarrow> bool" where
  "truthy JUndefined = False"
| "truthy JNull = False"
| "truthy (JBool b) = b"
| "truthy (JNum n) = (n \<noteq> 0)"
| "truthy (JStr s) = (s \<noteq> [])"
| "truthy (JObj r) = True"

fun typeof :: "jsval \<Rightarrow> string" where
  "typeof JUndefined = ''undefined''"
| "typeof JNull = ''object''"
| "typeof (JBool b) = ''boolean''"
| "typeof (JNum n) = ''number''"
| "typeof (JStr s) = ''string''"
| "typeof (JObj r) = ''object''"

subsection \<open>Truthiness of optional, typed fields\<close>

definition truthy_bool :: "bool option \<Rightarrow> bool" where
  "truthy_bool b = (b = Some True)"

definition truthy_num :: "int option \<Rightarrow> bool" where
  "truthy_num n = (case n of None \<Rightarrow> False | Some k \<Rightarrow> k \<noteq> 0)"

definition truthy_str :: "string option \<Rightarrow> bool" where
  "truthy_str s = (case s of None \<Rightarrow> False | Some t \<Rightarrow> t \<noteq> [])"

subsection \<open>Decimal rendering of integers\<close>

definition digit_char :: "nat \<Rightarrow> char" where
  "digit_char d = char_of (48 + d)"

function show_nat :: "nat \<Rightarrow> string" where
  "show_nat n = (if n < 10 then [digit_char n] else show_nat (n div 10) @ [digit_char (n mod 10)])"
  by pat_completeness auto
termination
  by (relation "measure id") auto

declare show_nat.simps [simp del]

definition show_int :: "int \<Rightarrow> string" where
  "show_int i = (if i < 0 then CHR ''-'' # show_nat (nat (- i)) else show_nat (nat i))"

subsection \<open>Double-precision arithmetic\<close>

text \<open>
  \<open>fl x\<close> is the double nearest to the rational \<open>x\<close>, ties to the even significand:
  with \<open>2 ^ e \<le> \<bar>x\<bar> < 2 ^ (e + 1)\<close> the spacing of doubles around \<open>x\<close> is
  \<open>2 ^ (e - 52)\<close>. Overflow and subnormal numbers are outside the model (they need
  magnitudes beyond \<open>2 ^ 1023\<close> or below \<open>2 ^ - 1022\<close>).
\<close>

definition round_half_even :: "rat \<Rightarrow> int" where
  "round_half_even y =
     (let f = \<lfloor>y\<rfloor>; r = y - of_int f
      in if r < 1 / 2 then f else if 1 / 2 < r then f + 1 else if even f then f else f + 1)"

definition binade :: "rat \<Rightarrow> int" where
  "binade x =
     (let a = fst (quotient_of \<bar>x\<bar>); b = snd (quotient_of \<bar>x\<bar>); d = bitlen a - bitlen b
      in if 2 powi d \<le> \<bar>x\<bar> then d else d - 1)"

definition fl :: "rat \<Rightarrow> rat" where
  "fl x = (if x = 0 then 0
           else let s = 2 powi (binade x - 52) in of_int (round_half_even (x / s)) * s)"

definition js_div :: "rat \<Rightarrow> rat \<Rightarrow> rat" where
  "js_div a b = fl (a / b)"

definition js_mul :: "rat \<Rightarrow> rat \<Rightarrow> rat" where
  "js_mul a b = fl (a * b)"


definition Math_round :: "rat \<Rightarrow> int" where
  "Math_round x = \<lfloor>x + 1 / 2\<rfloor>"

definition Math_floor :: "rat \<Rightarrow> int" where
  "Math_floor x = \<lfloor>x\<rfloor>"

subsection \<open>Characters and strings\<close>

definition is_whitespace :: "char \<Rightarrow> bool" where
  \<comment> \<open>the class \<^verbatim>\<open>\s\<close> below U+0100: tab, LF, VT, FF, CR, space, no-break space\<close>
  "is_whitespace c = (let n = (of_char c :: nat) in (9 \<le> n \<and> n \<le> 13) \<or> n = 32 \<or> n = 160)"

definition is_word_char :: "char \<Rightarrow> bool" where
  \<comment> \<open>the class \<^verbatim>\<open>\w\<close>: ASCII letters, digits and the underscore\<close>
  "is_word_char c =
     (let n = (of_char c :: nat)
      in (48 \<le> n \<and> n \<le> 57) \<or> (65 \<le> n \<and> n \<le> 90) \<or> n = 95 \<or> (97 \<le> n \<and> n \<le> 122))"

definition lower_char :: "char \<Rightarrow> char" where
  "lower_char c =
     (let n = (of_char c :: nat)
      in if (65 \<le> n \<and> n \<le> 90) \<or> (192 \<le> n \<and> n \<le> 222 \<and> n \<noteq> 215) then char_of (n + 32) else c)"

definition toLowerCase :: "string \<Rightarrow> string" where
  "toLowerCase s = map lower_char s"

text \<open>
  \<^verbatim>\<open>s.split(/\s+/)\<close>: the pieces between maximal runs of whitespace. A leading or
  trailing run leaves an empty piece at that end, and the empty string gives one empty
  piece. \<open>cur\<close> is the piece being read, reversed; \<open>sep\<close> says the previous character
  was whitespace.
\<close>

fun split_go :: "string \<Rightarrow> bool \<Rightarrow> string \<Rightarrow> string list" where
  "split_go cur sep [] = [rev cur]"
| "split_go cur sep (c # cs) =
     (if is_whitespace c
      then (if sep then split_go [] True cs else rev cur # split_go [] True cs)
      else split_go (c # cur) False cs)"

definition split_whitespace :: "string \<Rightarrow> string list" where
  "split_whitespace s = split_go [] False s"

subsection \<open>Plain objects used as dictionaries\<close>

text \<open>
  A plain object \<^verbatim>\<open>{}\<close> is the list of its own properties in insertion order. Reading
  a key that is not an own property falls through to \<^verbatim>\<open>Object.prototype\<close>, whose
  properties are all truthy. Assigning to \<^verbatim>\<open>__proto__\<close> calls the inherited setter,
  which ignores a primitive value.
\<close>

definition Object_prototype_names :: "string list" where
  "Object_prototype_names =
     [''constructor'', ''__defineGetter__'', ''__defineSetter__'', ''hasOwnProperty'',
      ''__lookupGetter__'', ''__lookupSetter__'', ''isPrototypeOf'', ''propertyIsEnumerable'',
      ''toString'', ''valueOf'', ''__proto__'', ''toLocaleString'']"

definition inherited :: "string \<Rightarrow> jsval option" where
  "inherited k =
     (if k = ''__proto__'' then Some (JObj ''[object Object]'')
      else if k = ''constructor'' then Some (JObj ''function Object() { [native code] }'')
      else if k \<in> set Object_prototype_names
        then Some (JObj (''function '' @ k @ ''() { [native code] }''))
      else None)"

definition get_property :: "(string \<times> jsval) list \<Rightarrow> string \<Rightarrow> jsval option" where
  "get_property obj k = (case map_of obj k of Some v \<Rightarrow> Some v | None \<Rightarrow> inherited k)"

definition set_property :: "(string \<times> jsval) list \<Rightarrow> string \<Rightarrow> jsval \<Rightarrow> (string \<times> jsval) list" where
  "set_property obj k v = (if k = ''__proto__'' then obj else AList.update k v obj)"

text \<open>
  Own keys are enumerated with the array indices first (canonical decimal strings up to
  \<open>2 ^ 32 - 2\<close>), in ascending numeric order, then the other keys in insertion order.
\<close>

definition is_digit :: "char \<Rightarrow> bool" where
  "is_digit c = (let n = (of_char c :: nat) in 48 \<le> n \<and> n \<le> 57)"

definition digits_value :: "string \<Rightarrow> int" where
  "digits_value s = foldl (\<lambda>a c. 10 * a + (of_char c - 48)) 0 s"

definition array_index :: "string \<Rightarrow> int option" where
  "array_index s =
     (if s \<noteq> [] \<and> list_all is_digit s \<and> (s = ''0'' \<or> hd s \<noteq> CHR ''0'')
         \<and> digits_value s \<le> 4294967294
      then Some (digits_value s) else None)"

definition index_rank :: "string \<Rightarrow> int" where
  "index_rank k = (case array_index k of Some n \<Rightarrow> n | None \<Rightarrow> 0)"

definition Object_entries :: "(string \<times> 'a) list \<Rightarrow> (string \<times> 'a) list" where
  "Object_entries obj =
     sort_key (\<lambda>p. index_rank (fst p)) (filter (\<lambda>p. array_index (fst p) \<noteq> None) obj)
     @ filter (\<lambda>p. array_index (fst p) = None) obj"

definition Object_keys :: "(string \<times> 'a) list \<Rightarrow> string list" where
  "Object_keys obj = map fst (Object_entries obj)"

subsection \<open>Stable sorting with a comparator\<close>

text \<open>
  \<^verbatim>\<open>Array.prototype.sort\<close> is stable. With a consistent comparator every stable sort
  returns the same array; the language leaves the order open when the comparator is not
  consistent, and this insertion sort is then one admissible outcome.
\<close>

fun insert_sorted :: "('a \<Rightarrow> 'a \<Rightarrow> int) \<Rightarrow> 'a \<Rightarrow> 'a list \<Rightarrow> 'a list" where
  "insert_sorted cmp x [] = [x]"
| "insert_sorted cmp x (y # ys) =
     (if cmp x y \<le> 0 then x # y # ys else y # insert_sorted cmp x ys)"

definition Array_sort :: "('a \<Rightarrow> 'a \<Rightarrow> int) \<Rightarrow> 'a list \<Rightarrow> 'a list" where
  "Array_sort cmp xs = foldr (insert_sorted cmp) xs []"

section \<open>Keyword extraction\<close>

text \<open>
  \<^verbatim>\<open>extractKeywords\<close> (index.ts, lines 598 to 617). \<open>candidate_words\<close> is the constant
  \<^verbatim>\<open>words\<close> of the source, \<open>count_words\<close> its counting loop over the object
  \<^verbatim>\<open>wordCounts\<close>.
\<close>

definition stopwords :: "string list" where
  "stopwords = [''about'', ''above'', ''across'', ''after'', ''again'']"

definition candidate_words :: "string \<Rightarrow> string list" where
  "candidate_words text =
     filter (\<lambda>word. word \<notin> set stopwords)
       (filter (\<lambda>word. length word > 4)
         (split_whitespace
           (filter (\<lambda>c. is_word_char c \<or> is_whitespace c) (toLowerCase text))))"

definition or_zero_plus_one :: "jsval option \<Rightarrow> jsval" where
  \<comment> \<open>\<^verbatim>\<open>(wordCounts[word] || 0) + 1\<close>; adding a number to a string or an object concatenates\<close>
  "or_zero_plus_one x =
     (case x of
        None \<Rightarrow> JNum 1
      | Some v \<Rightarrow>
          (if \<not> truthy v then JNum 1
           else case v of
                  JNum n \<Rightarrow> JNum (n + 1)
                | JStr s \<Rightarrow> JStr (s @ ''1'')
                | JObj r \<Rightarrow> JStr (r @ ''1'')
                | _ \<Rightarrow> JNum 2))"

definition count_word :: "(string \<times> jsval) list \<Rightarrow> string \<Rightarrow> (string \<times> jsval) list" where
  "count_word wordCounts word =
     set_property wordCounts word (or_zero_plus_one (get_property wordCounts word))"

definition count_words :: "string list \<Rightarrow> (string \<times> jsval) list" where
  "count_words ws = foldl count_word [] ws"

definition by_count_desc :: "string \<times> jsval \<Rightarrow> string \<times> jsval \<Rightarrow> int" where
  \<comment> \<open>\<^verbatim>\<open>(a, b) => b[1] - a[1]\<close>; a count that is not a number gives NaN, which sorts as 0\<close>
  "by_count_desc a b =
     (case (snd b, snd a) of (JNum y, JNum x) \<Rightarrow> y - x | _ \<Rightarrow> 0)"

definition extractKeywords :: "string \<Rightarrow> string list" where
  "extractKeywords text =
     map fst (take 5 (Array_sort by_count_desc (Object_entries (count_words (candidate_words text)))))"

section \<open>Thought records\<close>

text \<open>
  Modelled from the spec: the declaration of \<^verbatim>\<open>ThoughtData\<close> (types/ThoughtData.ts) is
  not among the sources. The record has the fields that index.ts reads or writes, at the
  types given by the casts of the validator, the tool schema and section 3 of the
  specification. An absent optional field is \<open>None\<close>. The fields \<^verbatim>\<open>classification\<close>,
  \<^verbatim>\<open>confidenceScore\<close> and \<^verbatim>\<open>evidenceStrength\<close> are copied by the validator and never
  read afterwards; they are left out. The field \<^verbatim>\<open>keywords\<close> is called
  \<open>thoughtKeywords\<close> here.
\<close>

datatype phase_t = Planning | Analysis | Execution | Verification

datatype complexity_t = simple | medium | complex

datatype status_t = complete | in_progress | needs_revision

fun phase_name :: "phase_t \<Rightarrow> string" where
  "phase_name Planning = ''Planning''"
| "phase_name Analysis = ''Analysis''"
| "phase_name Execution = ''Execution''"
| "phase_name Verification = ''Verification''"

fun complexity_name :: "complexity_t \<Rightarrow> string" where
  "complexity_name simple = ''simple''"
| "complexity_name medium = ''medium''"
| "complexity_name complex = ''complex''"

record Quality =
  coherence :: int
  depth :: int
  relevance :: int
  qualityScore :: int
  feedback :: "string list"

text \<open>
  Modelled from the spec: the result types of the analytics collaborators, whose
  declarations are not among the sources, with the fields index.ts reads (sections 4.4
  and 4.6 of the specification). A strategy is its \<^verbatim>\<open>strategyName\<close> and
  \<^verbatim>\<open>description\<close>, a reasoning type its \<^verbatim>\<open>reasoningType\<close> and \<^verbatim>\<open>description\<close>.
\<close>

record Recommendations =
  strategies :: "(string \<times> string) list"
  reasoningTypes :: "(string \<times> string) list"
  focusAreas :: "string list"

record AlignmentData =
  alignment_promptAlignment :: int
  alignment_promptRelevance :: "(string \<times> rat) list"
  alignment_driftWarning :: "string option"

record ThoughtData =
  thought :: string
  thoughtNumber :: int
  totalThoughts :: int
  nextThoughtNeeded :: bool
  isRevision :: "bool option"
  revisesThought :: "int option"
  branchFromThought :: "int option"
  branchId :: "string option"
  needsMoreThoughts :: "bool option"
  phase :: "phase_t option"
  dependencies :: "int list option"
  toolsUsed :: "string list option"
  complexity :: "complexity_t option"
  status :: "status_t option"
  quality :: "Quality option"
  thoughtKeywords :: "string list option"
  insightValue :: "int option"
  contradictions :: "string list option"
  promptAlignment :: "int option"
  promptRelevance :: "(string \<times> rat) list option"
  driftWarning :: "string option"
  intelligenceRecommendations :: "Recommendations option"

text \<open>
  The argument of \<^verbatim>\<open>processThought\<close> is \<^verbatim>\<open>unknown\<close>. It is taken to be an object.
  The four required fields are arbitrary values (\<open>JUndefined\<close> when absent), which the
  validator checks; the optional fields are cast without a check and are taken at their
  declared types.
\<close>

record RawInput =
  raw_thought :: jsval
  raw_thoughtNumber :: jsval
  raw_totalThoughts :: jsval
  raw_nextThoughtNeeded :: jsval
  raw_isRevision :: "bool option"
  raw_revisesThought :: "int option"
  raw_branchFromThought :: "int option"
  raw_branchId :: "string option"
  raw_needsMoreThoughts :: "bool option"
  raw_phase :: "phase_t option"
  raw_dependencies :: "int list option"
  raw_toolsUsed :: "string list option"
  raw_complexity :: "complexity_t option"
  raw_status :: "status_t option"
  raw_quality :: "Quality option"
  raw_keywords :: "string list option"
  raw_insightValue :: "int option"

datatype thrown =
    Error string
  | TypeError string
  | RangeError string
  | Thrown string \<comment> \<open>a thrown value that is not an \<^verbatim>\<open>Error\<close>, with its string conversion\<close>

fun error_message :: "thrown \<Rightarrow> string" where
  \<comment> \<open>\<^verbatim>\<open>error instanceof Error ? error.message : String(error)\<close>\<close>
  "error_message (Error m) = m"
| "error_message (TypeError m) = m"
| "error_message (RangeError m) = m"
| "error_message (Thrown s) = s"

section \<open>Validation\<close>

fun as_string :: "jsval \<Rightarrow> string" where
  "as_string (JStr s) = s"
| "as_string _ = []"

fun as_number :: "jsval \<Rightarrow> int" where
  "as_number (JNum n) = n"
| "as_number _ = 0"

fun as_boolean :: "jsval \<Rightarrow> bool" where
  "as_boolean (JBool b) = b"
| "as_boolean _ = False"

definition validateThoughtData :: "RawInput \<Rightarrow> thrown + ThoughtData" where
  "validateThoughtData data =
     (if \<not> truthy (raw_thought data) \<or> typeof (raw_thought data) \<noteq> ''string''
        then Inl (Error ''Invalid thought: must be a string'')
      else if \<not> truthy (raw_thoughtNumber data) \<or> typeof (raw_thoughtNumber data) \<noteq> ''number''
        then Inl (Error ''Invalid thoughtNumber: must be a number'')
      else if \<not> truthy (raw_totalThoughts data) \<or> typeof (raw_totalThoughts data) \<noteq> ''number''
        then Inl (Error ''Invalid totalThoughts: must be a number'')
      else if typeof (raw_nextThoughtNeeded data) \<noteq> ''boolean''
        then Inl (Error ''Invalid nextThoughtNeeded: must be a boolean'')
      else Inr \<lparr>
        thought = as_string (raw_thought data),
        thoughtNumber = as_number (raw_thoughtNumber data),
        totalThoughts = as_number (raw_totalThoughts data),
        nextThoughtNeeded = as_boolean (raw_nextThoughtNeeded data),
        isRevision = raw_isRevision data,
        revisesThought = raw_revisesThought data,
        branchFromThought = raw_branchFromThought data,
        branchId = raw_branchId data,
        needsMoreThoughts = raw_needsMoreThoughts data,
        phase = raw_phase data,
        dependencies = raw_dependencies data,
        toolsUsed = raw_toolsUsed data,
        complexity = raw_complexity data,
        status = raw_status data,
        quality = raw_quality data,
        thoughtKeywords = raw_keywords data,
        insightValue = raw_insightValue data,
        contradictions = None,
        promptAlignment = None,
        promptRelevance = None,
        driftWarning = None,
        intelligenceRecommendations = None \<rparr>)"

section \<open>Quality assessment\<close>




section \<open>Implicit dependencies by keyword overlap\<close>

text \<open>
  \<^verbatim>\<open>detectSemanticRelationships\<close> (index.ts, lines 561 to 596), given the thought
  history and the new thought; it returns the new thought as the source leaves it.
\<close>

definition includes_dep :: "int list option \<Rightarrow> int \<Rightarrow> bool" where
  \<comment> \<open>\<^verbatim>\<open>newThought.dependencies?.includes(n)\<close>, \<^verbatim>\<open>undefined\<close> being falsy\<close>
  "includes_dep ds n = (case ds of None \<Rightarrow> False | Some xs \<Rightarrow> n \<in> set xs)"

definition keyword_overlap :: "string list \<Rightarrow> string list \<Rightarrow> string list" where
  "keyword_overlap previous current = filter (\<lambda>kw. kw \<in> set current) previous"

definition semanticConnections :: "ThoughtData list \<Rightarrow> ThoughtData \<Rightarrow> string list \<Rightarrow> int list" where
  "semanticConnections history newThought kws =
     concat (map (\<lambda>previousThought.
        case thoughtKeywords previousThought of
          None \<Rightarrow> []
        | Some pk \<Rightarrow>
            (if length (keyword_overlap pk kws) \<ge> 2
                \<and> \<not> includes_dep (dependencies newThought) (thoughtNumber previousThought)
             then [thoughtNumber previousThought] else [])) history)"

definition detectSemanticRelationships :: "ThoughtData list \<Rightarrow> ThoughtData \<Rightarrow> ThoughtData" where
  "detectSemanticRelationships history newThought =
     (if length history < 2 then newThought
      else
        let kws = extractKeywords (thought newThought);
            nt = newThought\<lparr> thoughtKeywords := Some kws \<rparr>;
            conns = semanticConnections history nt kws
        in if length conns > 0
           then nt\<lparr> dependencies :=
                  Some ((case dependencies nt of None \<Rightarrow> [] | Some ds \<Rightarrow> ds) @ conns) \<rparr>
           else nt)"

section \<open>Session state and collaborators\<close>

record ServerState =
  thoughtHistory :: "ThoughtData list"
  branches :: "(string \<times> ThoughtData list) list"

definition initial_state :: ServerState where
  "initial_state = \<lparr> thoughtHistory = [], branches = [] \<rparr>"

text \<open>
  The classes \<^verbatim>\<open>ContradictionDetector\<close>, \<^verbatim>\<open>PromptContext\<close>, \<^verbatim>\<open>PromptAnalyzer\<close> and
  \<^verbatim>\<open>IntelligenceMaximizationModule\<close> are imported by index.ts from modules that are not
  among the sources at hand. They are parameters of the model: each call either throws
  or returns a value, and none of them changes the thought history or the record it is
  given. \<open>promptMetadata\<close> is \<open>Some m\<close> when \<^verbatim>\<open>promptContext.isInitialized()\<close> holds and
  \<^verbatim>\<open>getMetadata()\<close> returns the metadata \<open>m\<close>.
\<close>

record 'm Collaborators =
  checkContradictions :: "ThoughtData \<Rightarrow> ThoughtData list \<Rightarrow> thrown + (bool \<times> string list)"
  promptMetadata :: "'m option"
  analyzeThoughtAlignment :: "string \<Rightarrow> 'm \<Rightarrow> thrown + AlignmentData"
  generateRecommendations :: "'m \<Rightarrow> int \<Rightarrow> int \<Rightarrow> phase_t option \<Rightarrow> thrown + Recommendations"

section \<open>Branch buckets\<close>

text \<open>
  Both \<^verbatim>\<open>processThought\<close> (lines 363 to 368) and \<^verbatim>\<open>groupThoughtsByBranch\<close>
  (graphRenderer.ts, lines 289 to 302) file a thought under its branch id with
  \<^verbatim>\<open>if (!b[id]) b[id] = []; b[id].push(t)\<close>. An id that names a property of
  \<^verbatim>\<open>Object.prototype\<close> reads as truthy, no bucket is created, and \<^verbatim>\<open>push\<close> is not a
  function of the inherited value: the call throws a \<^verbatim>\<open>TypeError\<close>, here \<open>None\<close>.
\<close>

definition bucket_push ::
  "(string \<times> ThoughtData list) list \<Rightarrow> string \<Rightarrow> ThoughtData \<Rightarrow> (string \<times> ThoughtData list) list option"
where
  "bucket_push b key t =
     (case map_of b key of
        Some bucket \<Rightarrow> Some (AList.update key (bucket @ [t]) b)
      | None \<Rightarrow>
          (if key \<in> set Object_prototype_names then None
           else Some (b @ [(key, [t])])))"

fun groupThoughtsByBranch_from ::
  "(string \<times> ThoughtData list) list \<Rightarrow> ThoughtData list \<Rightarrow> thrown + (string \<times> ThoughtData list) list"
where
  "groupThoughtsByBranch_from b [] = Inr b"
| "groupThoughtsByBranch_from b (t # ts) =
     (if truthy_str (branchId t)
      then (case bucket_push b (the (branchId t)) t of
              None \<Rightarrow> Inl (TypeError ''branches[thought.branchId].push is not a function'')
            | Some b' \<Rightarrow> groupThoughtsByBranch_from b' ts)
      else groupThoughtsByBranch_from b ts)"

definition groupThoughtsByBranch ::
  "ThoughtData list \<Rightarrow> thrown + (string \<times> ThoughtData list) list" where
  "groupThoughtsByBranch thoughts = groupThoughtsByBranch_from [] thoughts"

text \<open>
  \<^verbatim>\<open>generateDependencyGraph\<close> (graphRenderer.ts, lines 14 to 63) renders text that
  \<^verbatim>\<open>processThought\<close> only writes to the console. What matters to the caller is whether
  it returns: with thoughts of the declared types its only step that can throw is
  \<^verbatim>\<open>groupThoughtsByBranch\<close>. The model returns the grouping in place of the text.
\<close>

definition generateDependencyGraph ::
  "ThoughtData list \<Rightarrow> thrown + (string \<times> ThoughtData list) list" where
  "generateDependencyGraph thoughts = groupThoughtsByBranch thoughts"

section \<open>Progress, guidance and complexity\<close>

text \<open>
  \<^verbatim>\<open>createProgressBar\<close> (lines 428 to 435). \<^verbatim>\<open>String.prototype.repeat\<close> throws a
  \<^verbatim>\<open>RangeError\<close> on a negative count, and on a count that would make the string
  longer than the engine allows (\<open>2 ^ 29 - 24\<close> characters in V8). The filled part is
  built first, so its count is tested first. The bar itself is console output; the
  model returns the two counts.
\<close>

definition max_string_length :: int where
  "max_string_length = 2 ^ 29 - 24"

definition createProgressBar :: "rat \<Rightarrow> thrown + (int \<times> int)" where
  "createProgressBar percentage =
     (let width = 20;
          completed = Math_floor (js_mul (of_int width) (js_div percentage 100));
          remaining = width - completed
      in if completed < 0 then Inl (RangeError (''Invalid count value: '' @ show_int completed))
         else if completed > max_string_length then Inl (RangeError ''Invalid string length'')
         else if remaining < 0 then Inl (RangeError (''Invalid count value: '' @ show_int remaining))
         else Inr (completed, remaining))"

definition provideStrategicGuidance :: "ThoughtData \<Rightarrow> string list" where
  "provideStrategicGuidance currentThought =
     (let progress = js_div (of_int (thoughtNumber currentThought))
                            (of_int (totalThoughts currentThought));
          g1 = (if progress > 3 / 4 \<and> phase currentThought \<noteq> Some Verification
                then [''Consider transitioning to the Verification phase to validate your solution'']
                else []);
          g2 = (case promptAlignment currentThought of
                  None \<Rightarrow> []
                | Some a \<Rightarrow>
                    (if a < 5
                     then [''This thought has low alignment with the original prompt. ''
                           @ ''Consider revising to better address the prompt'' @ [CHR 0x27]
                           @ ''s goals'']
                     else []));
          g3 = (case intelligenceRecommendations currentThought of
                  None \<Rightarrow> []
                | Some r \<Rightarrow>
                    (case strategies r of
                       [] \<Rightarrow> []
                     | topStrategy # _ \<Rightarrow>
                         [''Try using the '' @ [CHR 0x22] @ fst topStrategy @ [CHR 0x22] @ '' strategy: ''
                            @ snd topStrategy])
                    @ (case reasoningTypes r of
                         [] \<Rightarrow> []
                       | topReasoningType # _ \<Rightarrow>
                           [''Consider using '' @ fst topReasoningType @ '' reasoning: ''
                              @ snd topReasoningType]))
      in g1 @ g2 @ g3)"

definition estimateComplexity :: "ServerState \<Rightarrow> complexity_t" where
  "estimateComplexity st =
     (let thoughtCount = length (thoughtHistory st);
          revisionCount = length (filter (\<lambda>t. truthy_bool (isRevision t)) (thoughtHistory st));
          branchCount = length (Object_keys (branches st))
      in if thoughtCount > 10 \<or> branchCount > 2 then complex
         else if thoughtCount > 5 \<or> revisionCount > 1 \<or> branchCount > 0 then medium
         else simple)"

section \<open>Processing a submission\<close>

record Response =
  res_thoughtNumber :: int
  res_totalThoughts :: int
  res_nextThoughtNeeded :: bool
  res_branches :: "string list"
  res_phase :: string
  res_complexity :: string
  res_progress :: string
  res_strategicGuidance :: "string list"
  res_promptAlignment :: "int option"
  res_driftWarning :: "string option"
  res_recommendations :: "Recommendations option"

record ErrorBody =
  err_error :: string
  err_status :: string

datatype ToolResult =
    is_Success: Success (the_response: Response)
  | Failure (the_error: ErrorBody) \<comment> \<open>returned with \<^verbatim>\<open>isError: true\<close>\<close>

definition failed :: "thrown \<Rightarrow> ToolResult" where
  "failed e = Failure \<lparr> err_error = error_message e, err_status = ''failed'' \<rparr>"

definition adjustTotal :: "ThoughtData \<Rightarrow> ThoughtData" where
  \<comment> \<open>lines 307 to 310\<close>
  "adjustTotal v =
     (if thoughtNumber v > totalThoughts v then v\<lparr> totalThoughts := thoughtNumber v \<rparr> else v)"

definition defaultPhase :: "ThoughtData \<Rightarrow> ThoughtData" where
  \<comment> \<open>lines 312 to 318; \<^verbatim>\<open>phaseMap\<close> has the single key 1\<close>
  "defaultPhase v =
     (if phase v = None
      then v\<lparr> phase := Some (if thoughtNumber v = 1 then Planning else Execution) \<rparr>
      else v)"

definition analyzeAlignment :: "'m Collaborators \<Rightarrow> ThoughtData \<Rightarrow> thrown + ThoughtData" where
  \<comment> \<open>lines 333 to 357\<close>
  "analyzeAlignment env v =
     (case promptMetadata env of
        None \<Rightarrow> Inr v
      | Some m \<Rightarrow>
          (case analyzeThoughtAlignment env (thought v) m of
             Inl e \<Rightarrow> Inl e
           | Inr alignmentData \<Rightarrow>
               let v' = v\<lparr> promptAlignment := Some (alignment_promptAlignment alignmentData),
                            promptRelevance := Some (alignment_promptRelevance alignmentData),
                            driftWarning := alignment_driftWarning alignmentData \<rparr>
               in (case generateRecommendations env m (thoughtNumber v') (totalThoughts v') (phase v') of
                     Inl e \<Rightarrow> Inl e
                   | Inr r \<Rightarrow> Inr (v'\<lparr> intelligenceRecommendations := Some r \<rparr>))))"

definition handleBranching ::
  "(string \<times> ThoughtData list) list \<Rightarrow> ThoughtData \<Rightarrow> thrown + (string \<times> ThoughtData list) list"
where
  \<comment> \<open>lines 362 to 368\<close>
  "handleBranching b v =
     (if truthy_num (branchFromThought v) \<and> truthy_str (branchId v)
      then (case bucket_push b (the (branchId v)) v of
              None \<Rightarrow> Inl (TypeError ''this.branches[validatedInput.branchId].push is not a function'')
            | Some b' \<Rightarrow> Inr b')
      else Inr b)"

definition trimRecommendations :: "Recommendations \<Rightarrow> Recommendations" where
  "trimRecommendations r =
     \<lparr> strategies = take 1 (strategies r),
       reasoningTypes = take 1 (reasoningTypes r),
       focusAreas = take 1 (focusAreas r) \<rparr>"

definition progressOf :: "ThoughtData \<Rightarrow> rat" where
  \<comment> \<open>line 375: \<^verbatim>\<open>(thoughtNumber / totalThoughts) * 100\<close>\<close>
  "progressOf v = js_mul (js_div (of_int (thoughtNumber v)) (of_int (totalThoughts v))) 100"

definition buildResponse :: "ServerState \<Rightarrow> ThoughtData \<Rightarrow> Response" where
  \<comment> \<open>lines 389 to 413, on the state after storage\<close>
  "buildResponse st v =
     \<lparr> res_thoughtNumber = thoughtNumber v,
       res_totalThoughts = totalThoughts v,
       res_nextThoughtNeeded = nextThoughtNeeded v,
       res_branches = Object_keys (branches st),
       res_phase = (case phase v of Some p \<Rightarrow> phase_name p | None \<Rightarrow> []),
       res_complexity =
         complexity_name (case complexity v of Some c \<Rightarrow> c | None \<Rightarrow> estimateComplexity st),
       res_progress = show_int (Math_round (progressOf v)) @ ''%'',
       res_strategicGuidance = take 2 (take 2 (provideStrategicGuidance v)),
       res_promptAlignment = promptAlignment v,
       res_driftWarning = driftWarning v,
       res_recommendations = map_option trimRecommendations (intelligenceRecommendations v) \<rparr>"

text \<open>
  \<^verbatim>\<open>processThought\<close> (lines 303 to 426) in two stages. \<open>enrich\<close> is everything between
  validation and storage (lines 307 to 357): it works on the record only and reads the
  history. \<open>storeAndRespond\<close> is the rest of the \<^verbatim>\<open>try\<close> block (lines 359 to 413):
  the record is pushed first, and every later step that throws leaves it pushed. The
  \<^verbatim>\<open>catch\<close> clause turns whatever was thrown into the error result.
\<close>

definition enrich :: "'m Collaborators \<Rightarrow> ThoughtData list \<Rightarrow> ThoughtData \<Rightarrow> thrown + ThoughtData" where
  "enrich env history validatedInput =
     (let v1 = adjustTotal validatedInput;
          v2 = defaultPhase v1;
          v3 = v2\<lparr> thoughtKeywords := Some (extractKeywords (thought v2)) \<rparr>
      in (case checkContradictions env v3 history of
            Inl e \<Rightarrow> Inl e
          | Inr (hasContradictions, details) \<Rightarrow>
              analyzeAlignment env
                (if hasContradictions then v3\<lparr> contradictions := Some details \<rparr> else v3)))"

definition storeAndRespond :: "ServerState \<Rightarrow> ThoughtData \<Rightarrow> ServerState \<times> ToolResult" where
  "storeAndRespond st v =
     (let st1 = st\<lparr> thoughtHistory := thoughtHistory st @ [v] \<rparr>
      in (case handleBranching (branches st1) v of
            Inl e \<Rightarrow> (st1, failed e)
          | Inr b \<Rightarrow>
              let st2 = st1\<lparr> branches := b \<rparr>
              in (case generateDependencyGraph (thoughtHistory st2) of
                    Inl e \<Rightarrow> (st2, failed e)
                  | Inr graph \<Rightarrow>
                      (case createProgressBar (progressOf v) of
                         Inl e \<Rightarrow> (st2, failed e)
                       | Inr bar \<Rightarrow> (st2, Success (buildResponse st2 v))))))"

definition processThought ::
  "'m Collaborators \<Rightarrow> ServerState \<Rightarrow> RawInput \<Rightarrow> ServerState \<times> ToolResult" where
  "processThought env st input =
     (case validateThoughtData input of
        Inl e \<Rightarrow> (st, failed e)
      | Inr validatedInput \<Rightarrow>
          (case enrich env (thoughtHistory st) validatedInput of
             Inl e \<Rightarrow> (st, failed e)
           | Inr v \<Rightarrow> storeAndRespond st v))"

text \<open>A session is a sequence of calls; each call sees the collaborators as they are then.\<close>

fun run :: "ServerState \<Rightarrow> ('m Collaborators \<times> RawInput) list \<Rightarrow> ServerState" where
  "run st [] = st"
| "run st (c # cs) = run (fst (processThought (fst c) st (snd c))) cs"

fun responses :: "ServerState \<Rightarrow> ('m Collaborators \<times> RawInput) list \<Rightarrow> ToolResult list" where
  "responses st [] = []"
| "responses st (c # cs) =
     snd (processThought (fst c) st (snd c)) # responses (fst (processThought (fst c) st (snd c))) cs"

subsection \<open>Concrete collaborators and submissions\<close>

definition quiet :: "unit Collaborators" where
  \<comment> \<open>no contradictions found, prompt context not initialised\<close>
  "quiet = \<lparr> checkContradictions = (\<lambda>t h. Inr (False, [])),
             promptMetadata = None,
             analyzeThoughtAlignment = (\<lambda>s m. Inr \<lparr> alignment_promptAlignment = 5,
                alignment_promptRelevance = [], alignment_driftWarning = None \<rparr>),
             generateRecommendations = (\<lambda>m n t p. Inr \<lparr> strategies = [], reasoningTypes = [],
                focusAreas = [] \<rparr>) \<rparr>"

definition submission :: "string \<Rightarrow> int \<Rightarrow> int \<Rightarrow> bool \<Rightarrow> RawInput" where
  \<comment> \<open>a submission with the four required fields only\<close>
  "submission text n tot needed =
     \<lparr> raw_thought = JStr text, raw_thoughtNumber = JNum n, raw_totalThoughts = JNum tot,
       raw_nextThoughtNeeded = JBool needed,
       raw_isRevision = None, raw_revisesThought = None, raw_branchFromThought = None,
       raw_branchId = None, raw_needsMoreThoughts = None, raw_phase = None,
       raw_dependencies = None, raw_toolsUsed = None, raw_complexity = None, raw_status = None,
       raw_quality = None, raw_keywords = None, raw_insightValue = None \<rparr>"

text \<open>The record as it stands when the contradiction check is called.\<close>

definition prepared :: "ThoughtData \<Rightarrow> ThoughtData" where
  "prepared v = (defaultPhase (adjustTotal v))\<lparr> thoughtKeywords :=
       Some (extractKeywords (thought (defaultPhase (adjustTotal v)))) \<rparr>"

section \<open>Vocabulary for the properties\<close>

text \<open>
  The four required fields in the order the validator tests them, the type each must
  have, and the validator's own test of each (lines 76 to 87): the first three must be
  truthy, so an empty string and the number zero are turned away like an absent field.
\<close>

datatype required_field = F_thought | F_thoughtNumber | F_totalThoughts | F_nextThoughtNeeded

definition required_fields :: "required_field list" where
  "required_fields = [F_thought, F_thoughtNumber, F_totalThoughts, F_nextThoughtNeeded]"

fun field_name :: "required_field \<Rightarrow> string" where
  "field_name F_thought = ''thought''"
| "field_name F_thoughtNumber = ''thoughtNumber''"
| "field_name F_totalThoughts = ''totalThoughts''"
| "field_name F_nextThoughtNeeded = ''nextThoughtNeeded''"

fun field_type :: "required_field \<Rightarrow> string" where
  "field_type F_thought = ''string''"
| "field_type F_thoughtNumber = ''number''"
| "field_type F_totalThoughts = ''number''"
| "field_type F_nextThoughtNeeded = ''boolean''"

fun field_value :: "RawInput \<Rightarrow> required_field \<Rightarrow> jsval" where
  "field_value data F_thought = raw_thought data"
| "field_value data F_thoughtNumber = raw_thoughtNumber data"
| "field_value data F_totalThoughts = raw_totalThoughts data"
| "field_value data F_nextThoughtNeeded = raw_nextThoughtNeeded data"

fun field_rejected :: "RawInput \<Rightarrow> required_field \<Rightarrow> bool" where
  "field_rejected data F_nextThoughtNeeded =
     (typeof (raw_nextThoughtNeeded data) \<noteq> ''boolean'')"
| "field_rejected data f =
     (\<not> truthy (field_value data f) \<or> typeof (field_value data f) \<noteq> field_type f)"

definition missing_or_mistyped :: "RawInput \<Rightarrow> required_field \<Rightarrow> bool" where
  \<comment> \<open>absent (\<^verbatim>\<open>undefined\<close>) or of another type than required\<close>
  "missing_or_mistyped data f = (typeof (field_value data f) \<noteq> field_type f)"

fun empty_or_zero :: "RawInput \<Rightarrow> required_field \<Rightarrow> bool" where
  \<comment> \<open>present and of the right type, but an empty thought or a number zero\<close>
  "empty_or_zero data F_thought = (raw_thought data = JStr [])"
| "empty_or_zero data F_thoughtNumber = (raw_thoughtNumber data = JNum 0)"
| "empty_or_zero data F_totalThoughts = (raw_totalThoughts data = JNum 0)"
| "empty_or_zero data F_nextThoughtNeeded = False"

definition turned_away :: "RawInput \<Rightarrow> required_field \<Rightarrow> bool" where
  "turned_away data f = (missing_or_mistyped data f \<or> empty_or_zero data f)"

definition invalid_message :: "required_field \<Rightarrow> string" where
  "invalid_message f = ''Invalid '' @ field_name f @ '': must be a '' @ field_type f"

definition without_nextThoughtNeeded :: RawInput where
  "without_nextThoughtNeeded =
     (submission ''Plan the approach to sort a list'' 1 5 True)\<lparr> raw_nextThoughtNeeded := JUndefined \<rparr>"

definition empty_thought_without_next :: RawInput where
  \<comment> \<open>the thought is an empty string, \<^verbatim>\<open>nextThoughtNeeded\<close> is absent\<close>
  "empty_thought_without_next =
     (submission [] 1 5 True)\<lparr> raw_nextThoughtNeeded := JUndefined \<rparr>"

definition inherited_branch_submission :: RawInput where
  \<comment> \<open>a schema-valid submission whose branch id names a property of \<^verbatim>\<open>Object.prototype\<close>\<close>
  "inherited_branch_submission =
     (submission ''Try another route'' 2 5 True)
       \<lparr> raw_branchFromThought := Some 1, raw_branchId := Some ''constructor'' \<rparr>"

definition failing_detector :: "unit Collaborators" where
  "failing_detector = quiet\<lparr> checkContradictions := (\<lambda>t h. Inl (Error ''detector failed'')) \<rparr>"

definition alt_branch_submission :: RawInput where
  "alt_branch_submission =
     (submission ''Try another route'' 3 5 True)
       \<lparr> raw_branchFromThought := Some 2, raw_branchId := Some ''alt'' \<rparr>"



definition ten_words_thought :: ThoughtData where
  "ten_words_thought =
     \<lparr> thought = ''Compare the two ways to sort the list by hand'',
       thoughtNumber = 2, totalThoughts = 5, nextThoughtNeeded = True,
       isRevision = None, revisesThought = None, branchFromThought = None, branchId = None,
       needsMoreThoughts = None, phase = Some Execution, dependencies = None, toolsUsed = None,
       complexity = None, status = None, quality = None,
       thoughtKeywords = Some [''compare''], insightValue = None, contradictions = None,
       promptAlignment = None, promptRelevance = None, driftWarning = None,
       intelligenceRecommendations = None \<rparr>"

definition sorting_first :: RawInput where
  "sorting_first = submission ''Sorting algorithm comparison for large lists'' 1 5 True"

definition sorting_second :: RawInput where
  "sorting_second = submission ''Sorting algorithm choice: quicksort'' 2 5 True"

definition quicksort_thought :: ThoughtData where
  "quicksort_thought = ten_words_thought\<lparr> thought := ''Sorting algorithm choice: quicksort'' \<rparr>"

definition sorting_thought :: ThoughtData where
  "sorting_thought =
     ten_words_thought\<lparr> thought := ''Sorting algorithm comparison for large lists'',
       thoughtNumber := 1, phase := Some Planning,
       thoughtKeywords := Some [''sorting'', ''algorithm'', ''comparison'', ''large'', ''lists''] \<rparr>"

definition two_stored :: "ThoughtData list" where
  "two_stored = [sorting_thought, ten_words_thought]"

text \<open>The largest sequence number and the largest declared total among the stored records.\<close>

definition highest_number :: "ServerState \<Rightarrow> int" where
  "highest_number st = Max (thoughtNumber ` set (thoughtHistory st))"

definition highest_total :: "ServerState \<Rightarrow> int" where
  "highest_total st = Max (totalThoughts ` set (thoughtHistory st))"

definition lowered_total_session :: "(unit Collaborators \<times> RawInput) list" where
  "lowered_total_session =
     [(quiet, submission ''Check'' 6 5 True),
      (quiet, submission ''Redo'' 2 3 True)]"

text \<open>
  A record is filed under a branch id when the guard of line 363 lets it through with
  that id: both \<^verbatim>\<open>branchFromThought\<close> and \<^verbatim>\<open>branchId\<close> are truthy.
\<close>

definition filed_under :: "string \<Rightarrow> ThoughtData \<Rightarrow> bool" where
  "filed_under k t =
     (truthy_num (branchFromThought t) \<and> truthy_str (branchId t) \<and> branchId t = Some k)"

definition branch_index_ok :: "ServerState \<Rightarrow> bool" where
  "branch_index_ok st =
     (distinct (map fst (branches st))
      \<and> (\<forall>k. map_of (branches st) k =
             (if k \<notin> set Object_prototype_names
                 \<and> filter (filed_under k) (thoughtHistory st) \<noteq> []
              then Some (filter (filed_under k) (thoughtHistory st)) else None)))"

definition branch_id_only_submission :: RawInput where
  "branch_id_only_submission = (submission ''Other'' 3 5 True)\<lparr> raw_branchId := Some ''alt'' \<rparr>"

text \<open>The number printed as the progress (lines 375 and 399), from the numbers of the response.\<close>

definition percentage :: "int \<Rightarrow> int \<Rightarrow> int" where
  "percentage n t = Math_round (js_mul (js_div (of_int n) (of_int t)) 100)"





text \<open>
  The tokens in the words of the specification: the text in lower case, without the
  characters that are neither word characters nor whitespace, split on whitespace, less
  the tokens of length at most 4 and the five stopwords.
\<close>

definition is_upper_case :: "char \<Rightarrow> bool" where
  "is_upper_case c = (let n = (of_char c :: nat) in 65 \<le> n \<and> n \<le> 90)"

definition kept_token :: "string \<Rightarrow> bool" where
  "kept_token w =
     (4 < length w \<and> w \<notin> {''about'', ''above'', ''across'', ''after'', ''again''})"

definition described_tokens :: "string \<Rightarrow> string list" where
  "described_tokens text =
     filter kept_token
       (split_whitespace (filter (\<lambda>c. is_word_char c \<or> is_whitespace c) (map lower_char text)))"

text \<open>
  The ranking in the words of the specification: the distinct words in the order of their
  first occurrence, sorted stably by descending frequency, cut to five.
\<close>

fun first_occurrences :: "'a list \<Rightarrow> 'a list" where
  "first_occurrences [] = []"
| "first_occurrences (x # xs) = x # filter (\<lambda>y. y \<noteq> x) (first_occurrences xs)"

definition frequency_rank :: "string list \<Rightarrow> string \<Rightarrow> int" where
  "frequency_rank ws w = - int (count_list ws w)"

definition first_occurrence_ranking :: "string list \<Rightarrow> string list" where
  "first_occurrence_ranking ws = take 5 (sort_key (frequency_rank ws) (first_occurrences ws))"

text \<open>
  The same ranking over the order in which the counting object enumerates its keys: the
  words that are array indices first, in ascending numeric order, then the others in the
  order of their first occurrence.
\<close>

definition enumeration_order :: "string list \<Rightarrow> string list" where
  "enumeration_order ws =
     sort_key index_rank (filter (\<lambda>w. array_index w \<noteq> None) (first_occurrences ws))
     @ filter (\<lambda>w. array_index w = None) (first_occurrences ws)"

definition enumeration_ranking :: "string list \<Rightarrow> string list" where
  "enumeration_ranking ws = take 5 (sort_key (frequency_rank ws) (enumeration_order ws))"

section \<open>The stages of a submission\<close>

lemma analyzeAlignment_fields:
  assumes "analyzeAlignment env v = Inr v'"
  shows "thought v' = thought v" "thoughtNumber v' = thoughtNumber v"
    "totalThoughts v' = totalThoughts v" "nextThoughtNeeded v' = nextThoughtNeeded v"
    "isRevision v' = isRevision v" "branchFromThought v' = branchFromThought v"
    "branchId v' = branchId v" "phase v' = phase v" "dependencies v' = dependencies v"
    "complexity v' = complexity v" "quality v' = quality v"
    "thoughtKeywords v' = thoughtKeywords v" "insightValue v' = insightValue v"
  using assms
  by (auto simp: analyzeAlignment_def Let_def split: option.splits sum.splits)

lemma prepared_fields:
  shows "thought (prepared v) = thought v" "thoughtNumber (prepared v) = thoughtNumber v"
    "totalThoughts (prepared v) = max (totalThoughts v) (thoughtNumber v)"
    "nextThoughtNeeded (prepared v) = nextThoughtNeeded v"
    "isRevision (prepared v) = isRevision v" "branchFromThought (prepared v) = branchFromThought v"
    "branchId (prepared v) = branchId v" "dependencies (prepared v) = dependencies v"
    "complexity (prepared v) = complexity v" "quality (prepared v) = quality v"
    "insightValue (prepared v) = insightValue v"
    "thoughtKeywords (prepared v) = Some (extractKeywords (thought v))"
    "phase (prepared v) = (case phase v of None \<Rightarrow> Some (if thoughtNumber v = 1 then Planning else Execution)
                  | Some p \<Rightarrow> Some p)"
  by (auto simp: prepared_def adjustTotal_def defaultPhase_def split: option.splits)

lemma enrich_Inr:
  assumes "enrich env h v = Inr v'"
  obtains v4 where "analyzeAlignment env v4 = Inr v'"
    and "v4 = prepared v \<or> (\<exists>d. v4 = (prepared v)\<lparr> contradictions := Some d \<rparr>)"
  using assms
  by (auto simp: enrich_def prepared_def Let_def split: sum.splits prod.splits if_splits)

lemma enrich_fields:
  assumes "enrich env h v = Inr v'"
  shows "thought v' = thought v" "thoughtNumber v' = thoughtNumber v"
    "totalThoughts v' = max (totalThoughts v) (thoughtNumber v)"
    "nextThoughtNeeded v' = nextThoughtNeeded v"
    "isRevision v' = isRevision v" "branchFromThought v' = branchFromThought v"
    "branchId v' = branchId v" "dependencies v' = dependencies v"
    "complexity v' = complexity v" "quality v' = quality v"
    "insightValue v' = insightValue v"
    "thoughtKeywords v' = Some (extractKeywords (thought v))"
    "phase v' = (case phase v of None \<Rightarrow> Some (if thoughtNumber v = 1 then Planning else Execution)
                  | Some p \<Rightarrow> Some p)"
proof -
  from assms obtain v4 where a: "analyzeAlignment env v4 = Inr v'"
    and b: "v4 = prepared v \<or> (\<exists>d. v4 = (prepared v)\<lparr> contradictions := Some d \<rparr>)"
    by (rule enrich_Inr)
  note f = analyzeAlignment_fields [OF a]
  from b show "thought v' = thought v" by (auto simp: f prepared_fields)
  from b show "thoughtNumber v' = thoughtNumber v" by (auto simp: f prepared_fields)
  from b show "totalThoughts v' = max (totalThoughts v) (thoughtNumber v)"
    by (auto simp: f prepared_fields)
  from b show "nextThoughtNeeded v' = nextThoughtNeeded v" by (auto simp: f prepared_fields)
  from b show "isRevision v' = isRevision v" by (auto simp: f prepared_fields)
  from b show "branchFromThought v' = branchFromThought v" by (auto simp: f prepared_fields)
  from b show "branchId v' = branchId v" by (auto simp: f prepared_fields)
  from b show "dependencies v' = dependencies v" by (auto simp: f prepared_fields)
  from b show "complexity v' = complexity v" by (auto simp: f prepared_fields)
  from b show "quality v' = quality v" by (auto simp: f prepared_fields)
  from b show "insightValue v' = insightValue v" by (auto simp: f prepared_fields)
  from b show "thoughtKeywords v' = Some (extractKeywords (thought v))"
    by (auto simp: f prepared_fields)
  from b show "phase v' = (case phase v of None \<Rightarrow> Some (if thoughtNumber v = 1 then Planning else Execution)
                  | Some p \<Rightarrow> Some p)"
    by (auto simp: f prepared_fields)
qed

lemma storeAndRespond_history:
  "thoughtHistory (fst (storeAndRespond st v)) = thoughtHistory st @ [v]"
  by (simp add: storeAndRespond_def Let_def split: sum.splits)

lemma storeAndRespond_Success:
  assumes "storeAndRespond st v = (st', Success r)"
  shows "r = buildResponse st' v" "thoughtHistory st' = thoughtHistory st @ [v]"
    "handleBranching (branches st) v = Inr (branches st')"
  using assms
  by (auto simp: storeAndRespond_def Let_def failed_def split: sum.splits)

lemma processThought_Success:
  assumes "processThought env st input = (st', Success r)"
  obtains v v' where "validateThoughtData input = Inr v"
    and "enrich env (thoughtHistory st) v = Inr v'"
    and "storeAndRespond st v' = (st', Success r)"
  using assms
  by (auto simp: processThought_def failed_def split: sum.splits)

lemma typeof_string: "typeof x = ''string'' \<longleftrightarrow> (\<exists>s. x = JStr s)"
  by (cases x) auto

lemma typeof_number: "typeof x = ''number'' \<longleftrightarrow> (\<exists>n. x = JNum n)"
  by (cases x) auto

lemma typeof_boolean: "typeof x = ''boolean'' \<longleftrightarrow> (\<exists>b. x = JBool b)"
  by (cases x) auto

lemma validate_Inr:
  assumes "validateThoughtData input = Inr v"
  obtains s n t b where "raw_thought input = JStr s" "s \<noteq> []"
    "raw_thoughtNumber input = JNum n" "n \<noteq> 0"
    "raw_totalThoughts input = JNum t" "t \<noteq> 0"
    "raw_nextThoughtNeeded input = JBool b"
proof -
  from assms have 1: "truthy (raw_thought input)" "typeof (raw_thought input) = ''string''"
    and 2: "truthy (raw_thoughtNumber input)" "typeof (raw_thoughtNumber input) = ''number''"
    and 3: "truthy (raw_totalThoughts input)" "typeof (raw_totalThoughts input) = ''number''"
    and 4: "typeof (raw_nextThoughtNeeded input) = ''boolean''"
    by (simp_all add: validateThoughtData_def split: if_splits)
  from 1 obtain s where "raw_thought input = JStr s" "s \<noteq> []"
    by (auto simp: typeof_string)
  moreover from 2 obtain n where "raw_thoughtNumber input = JNum n" "n \<noteq> 0"
    by (auto simp: typeof_number)
  moreover from 3 obtain t where "raw_totalThoughts input = JNum t" "t \<noteq> 0"
    by (auto simp: typeof_number)
  moreover from 4 obtain b where "raw_nextThoughtNeeded input = JBool b"
    by (auto simp: typeof_boolean)
  ultimately show ?thesis by (rule that)
qed

lemma validate_fields:
  assumes "validateThoughtData input = Inr v"
  shows "raw_thought input = JStr (thought v)" "thought v \<noteq> []"
    "raw_thoughtNumber input = JNum (thoughtNumber v)" "thoughtNumber v \<noteq> 0"
    "raw_totalThoughts input = JNum (totalThoughts v)" "totalThoughts v \<noteq> 0"
    "raw_nextThoughtNeeded input = JBool (nextThoughtNeeded v)"
    "isRevision v = raw_isRevision input" "branchFromThought v = raw_branchFromThought input"
    "branchId v = raw_branchId input" "phase v = raw_phase input"
    "dependencies v = raw_dependencies input" "complexity v = raw_complexity input"
    "quality v = raw_quality input"
proof -
  from assms obtain s n t b where r: "raw_thought input = JStr s" "s \<noteq> []"
    "raw_thoughtNumber input = JNum n" "n \<noteq> 0"
    "raw_totalThoughts input = JNum t" "t \<noteq> 0"
    "raw_nextThoughtNeeded input = JBool b"
    by (rule validate_Inr)
  with assms have v: "v = \<lparr>
        thought = s, thoughtNumber = n, totalThoughts = t, nextThoughtNeeded = b,
        isRevision = raw_isRevision input,
        revisesThought = raw_revisesThought input,
        branchFromThought = raw_branchFromThought input,
        branchId = raw_branchId input,
        needsMoreThoughts = raw_needsMoreThoughts input,
        phase = raw_phase input,
        dependencies = raw_dependencies input,
        toolsUsed = raw_toolsUsed input,
        complexity = raw_complexity input,
        status = raw_status input,
        quality = raw_quality input,
        thoughtKeywords = raw_keywords input,
        insightValue = raw_insightValue input,
        contradictions = None,
        promptAlignment = None,
        promptRelevance = None,
        driftWarning = None,
        intelligenceRecommendations = None \<rparr>"
    by (simp add: validateThoughtData_def)
  show "raw_thought input = JStr (thought v)" "thought v \<noteq> []"
    "raw_thoughtNumber input = JNum (thoughtNumber v)" "thoughtNumber v \<noteq> 0"
    "raw_totalThoughts input = JNum (totalThoughts v)" "totalThoughts v \<noteq> 0"
    "raw_nextThoughtNeeded input = JBool (nextThoughtNeeded v)"
    "isRevision v = raw_isRevision input" "branchFromThought v = raw_branchFromThought input"
    "branchId v = raw_branchId input" "phase v = raw_phase input"
    "dependencies v = raw_dependencies input" "complexity v = raw_complexity input"
    "quality v = raw_quality input"
    by (simp_all add: v r)
qed

section \<open>The total in the response\<close>

lemma buildResponse_numbers:
  "res_thoughtNumber (buildResponse st v) = thoughtNumber v"
  "res_totalThoughts (buildResponse st v) = totalThoughts v"
  by (simp_all add: buildResponse_def)

text \<open>
  Claim C5. Whenever a submission is answered with a success response, the response
  repeats the submitted \<^verbatim>\<open>thoughtNumber\<close> and its \<^verbatim>\<open>totalThoughts\<close> is the larger
  of the submitted \<^verbatim>\<open>totalThoughts\<close> and that number, hence never below it. Submitting
  number 6 with total 5 is answered with total 6.
\<close>

theorem response_total_covers_number:
  assumes "processThought env st input = (st', Success r)"
  shows "raw_thoughtNumber input = JNum (res_thoughtNumber r)
       \<and> res_thoughtNumber r \<le> res_totalThoughts r
       \<and> res_totalThoughts r = max (as_number (raw_totalThoughts input)) (res_thoughtNumber r)"
proof -
  from assms obtain v v' where v: "validateThoughtData input = Inr v"
    and e: "enrich env (thoughtHistory st) v = Inr v'"
    and s: "storeAndRespond st v' = (st', Success r)"
    by (rule processThought_Success)
  have r: "r = buildResponse st' v'" using s by (rule storeAndRespond_Success)
  have n: "res_thoughtNumber r = thoughtNumber v"
    by (simp add: r buildResponse_numbers enrich_fields [OF e])
  have t: "res_totalThoughts r = max (totalThoughts v) (thoughtNumber v)"
    by (simp add: r buildResponse_numbers enrich_fields [OF e])
  show ?thesis
    using validate_fields(3,5) [OF v] by (simp add: n t)
qed

theorem response_total_covers_number_witness:
  "\<exists>st' r. processThought quiet initial_state (submission ''Check the sorted list'' 6 5 True)
               = (st', Success r)
     \<and> res_thoughtNumber r = 6 \<and> res_totalThoughts r = 6"
proof -
  define out where "out = processThought quiet initial_state (submission ''Check the sorted list'' 6 5 True)"
  have "is_Success (snd out)"
    unfolding out_def by code_simp
  then obtain r where r: "snd out = Success r"
    by (cases "snd out") auto
  then have o: "processThought quiet initial_state (submission ''Check the sorted list'' 6 5 True)
      = (fst out, Success r)"
    unfolding out_def by (metis prod.collapse)
  from response_total_covers_number [OF o]
  have "res_thoughtNumber r = 6 \<and> res_totalThoughts r = 6"
    by (simp add: submission_def)
  with o show ?thesis by blast
qed

section \<open>Invalid input\<close>

lemma mistyped_rejected: "missing_or_mistyped data f \<Longrightarrow> field_rejected data f"
  by (cases f) (simp_all add: missing_or_mistyped_def)

lemma validate_first_rejected:
  "validateThoughtData data =
     (case find (field_rejected data) required_fields of
        Some g \<Rightarrow> Inl (Error (invalid_message g))
      | None \<Rightarrow> validateThoughtData data)"
  by (simp add: validateThoughtData_def required_fields_def invalid_message_def)

lemma processThought_invalid:
  "validateThoughtData data = Inl e \<Longrightarrow> processThought env st data = (st, failed e)"
  by (simp add: processThought_def)

lemma rejected_iff_turned_away: "field_rejected data f = turned_away data f"
proof (cases f)
  case F_thought
  then show ?thesis
    by (cases "raw_thought data") (auto simp: turned_away_def missing_or_mistyped_def)
next
  case F_thoughtNumber
  then show ?thesis
    by (cases "raw_thoughtNumber data") (auto simp: turned_away_def missing_or_mistyped_def)
next
  case F_totalThoughts
  then show ?thesis
    by (cases "raw_totalThoughts data") (auto simp: turned_away_def missing_or_mistyped_def)
next
  case F_nextThoughtNeeded
  then show ?thesis
    by (simp add: turned_away_def missing_or_mistyped_def)
qed

text \<open>
  Claim C3, as stated, fails: the validator turns away an empty thought and a number
  zero as well, so the field its message names need not be missing or mistyped. With an
  empty string as thought and \<^verbatim>\<open>nextThoughtNeeded\<close> absent, the only missing or
  mistyped field is \<^verbatim>\<open>nextThoughtNeeded\<close>, and the message names \<^verbatim>\<open>thought\<close>.
\<close>

theorem message_names_an_earlier_field_counterexample:
  "missing_or_mistyped empty_thought_without_next F_nextThoughtNeeded
   \<and> \<not> missing_or_mistyped empty_thought_without_next F_thought
   \<and> \<not> missing_or_mistyped empty_thought_without_next F_thoughtNumber
   \<and> \<not> missing_or_mistyped empty_thought_without_next F_totalThoughts
   \<and> processThought quiet initial_state empty_thought_without_next
       = (initial_state, Failure \<lparr> err_error = ''Invalid thought: must be a string'',
                                   err_status = ''failed'' \<rparr>)"
  by (simp add: missing_or_mistyped_def empty_thought_without_next_def submission_def
      processThought_def validateThoughtData_def failed_def)

text \<open>
  Claim C3, amended. If a required field is missing or of the wrong type,
  \<^verbatim>\<open>processThought\<close> returns the error result with status \<^verbatim>\<open>failed\<close> and leaves the
  state alone; nothing is thrown to the caller, every outcome being a returned value. The
  message names the first field, in the order \<^verbatim>\<open>thought\<close>, \<^verbatim>\<open>thoughtNumber\<close>,
  \<^verbatim>\<open>totalThoughts\<close>, \<^verbatim>\<open>nextThoughtNeeded\<close>, that is missing, mistyped, an empty
  thought or a number zero. That field is the missing or mistyped one or a field before
  it, and it is the missing or mistyped one when no field before it is turned away.
  Omitting \<^verbatim>\<open>nextThoughtNeeded\<close> alone is reported with that field's name.
\<close>

theorem invalid_input_is_reported:
  assumes "missing_or_mistyped data f"
  shows "\<exists>g. find (turned_away data) required_fields = Some g
           \<and> processThought env st data
               = (st, Failure \<lparr> err_error = invalid_message g, err_status = ''failed'' \<rparr>)
           \<and> (g = f \<or> g \<in> set (takeWhile (\<lambda>h. h \<noteq> f) required_fields))
           \<and> ((\<forall>h \<in> set (takeWhile (\<lambda>h. h \<noteq> f) required_fields). \<not> turned_away data h)
                \<longrightarrow> g = f)"
proof -
  have eq: "field_rejected data = turned_away data"
    by (rule ext) (rule rejected_iff_turned_away)
  have rej: "turned_away data f" using assms by (simp add: turned_away_def)
  have mem: "f \<in> set required_fields" by (cases f) (simp_all add: required_fields_def)
  from rej mem obtain g where g: "find (turned_away data) required_fields = Some g"
    by (cases "find (turned_away data) required_fields") (auto simp: find_None_iff)
  then have "validateThoughtData data = Inl (Error (invalid_message g))"
    by (subst validate_first_rejected) (simp add: eq)
  then have p: "processThought env st data
      = (st, Failure \<lparr> err_error = invalid_message g, err_status = ''failed'' \<rparr>)"
    by (simp add: processThought_invalid failed_def)
  have b: "g = f \<or> g \<in> set (takeWhile (\<lambda>h. h \<noteq> f) required_fields)"
    using g rej
    by (cases f; cases g) (auto simp: required_fields_def split: if_splits)
  have "g = f" if "\<forall>h \<in> set (takeWhile (\<lambda>h. h \<noteq> f) required_fields). \<not> turned_away data h"
    using that g rej
    by (cases f; cases g) (auto simp: required_fields_def split: if_splits)
  with g p b show ?thesis by blast
qed

theorem invalid_input_is_reported_witness:
  "missing_or_mistyped without_nextThoughtNeeded F_nextThoughtNeeded
   \<and> processThought quiet initial_state without_nextThoughtNeeded
       = (initial_state, Failure \<lparr> err_error = ''Invalid nextThoughtNeeded: must be a boolean'',
                                   err_status = ''failed'' \<rparr>)"
proof -
  have m: "missing_or_mistyped without_nextThoughtNeeded F_nextThoughtNeeded"
    by (simp add: missing_or_mistyped_def without_nextThoughtNeeded_def submission_def)
  have ok: "\<forall>h \<in> set (takeWhile (\<lambda>h. h \<noteq> F_nextThoughtNeeded) required_fields).
      \<not> turned_away without_nextThoughtNeeded h"
    by (simp add: required_fields_def without_nextThoughtNeeded_def submission_def
        turned_away_def missing_or_mistyped_def)
  from invalid_input_is_reported [OF m, of quiet initial_state] ok
  have "processThought quiet initial_state without_nextThoughtNeeded
      = (initial_state, Failure \<lparr> err_error = invalid_message F_nextThoughtNeeded,
                                  err_status = ''failed'' \<rparr>)"
    by auto
  with m show ?thesis by (simp add: invalid_message_def)
qed

section \<open>Failures and the stored state\<close>

text \<open>
  Claim C4, as stated, fails: the record is pushed onto the history before the branch
  bookkeeping, the graph rendering and the progress bar run, and nothing takes it off
  again when one of them throws. A branch id \<^verbatim>\<open>constructor\<close> makes the branch
  bookkeeping throw; the caller gets the error result and the history has grown.
\<close>

theorem failed_submission_is_stored_counterexample:
  "\<not> is_Success (snd (processThought quiet initial_state inherited_branch_submission))
   \<and> length (thoughtHistory (fst (processThought quiet initial_state inherited_branch_submission))) = 1
   \<and> length (thoughtHistory initial_state) = 0"
  by code_simp

text \<open>
  Claim C4, amended. When validation fails, or a stage that runs before storage throws
  (the contradiction check, the alignment scoring, the recommendations),
  \<^verbatim>\<open>processThought\<close> returns the error result for what was thrown and the thought
  history and the branch index are exactly as before the call.
\<close>

theorem failure_before_storage_keeps_state:
  assumes "validateThoughtData input = Inl e
         \<or> (\<exists>v. validateThoughtData input = Inr v \<and> enrich env (thoughtHistory st) v = Inl e)"
  shows "processThought env st input
           = (st, Failure \<lparr> err_error = error_message e, err_status = ''failed'' \<rparr>)"
  using assms by (auto simp: processThought_def failed_def)

theorem failure_before_storage_keeps_state_witness:
  "processThought failing_detector initial_state (submission ''Plan the approach'' 1 5 True)
     = (initial_state, Failure \<lparr> err_error = ''detector failed'', err_status = ''failed'' \<rparr>)"
proof -
  obtain v where v: "validateThoughtData (submission ''Plan the approach'' 1 5 True) = Inr v"
    by (simp add: validateThoughtData_def submission_def)
  have "enrich failing_detector (thoughtHistory initial_state) v = Inl (Error ''detector failed'')"
    by (simp add: enrich_def failing_detector_def Let_def)
  with v have "validateThoughtData (submission ''Plan the approach'' 1 5 True) = Inl (Error ''detector failed'')
      \<or> (\<exists>v. validateThoughtData (submission ''Plan the approach'' 1 5 True) = Inr v
            \<and> enrich failing_detector (thoughtHistory initial_state) v = Inl (Error ''detector failed''))"
    by blast
  from failure_before_storage_keeps_state [OF this] show ?thesis by simp
qed

section \<open>Estimated complexity\<close>

text \<open>
  Claim C10. When the caller gives no \<^verbatim>\<open>complexity\<close>, the complexity of a success
  response is estimated on the state after the record was stored: \<^verbatim>\<open>complex\<close> with
  more than 10 stored thoughts or more than 2 branches, else \<^verbatim>\<open>medium\<close> with more
  than 5 stored thoughts, more than 1 revision or at least one branch, else
  \<^verbatim>\<open>simple\<close>. The branches are those listed in the response.
\<close>

theorem estimated_complexity:
  assumes "processThought env st input = (st', Success r)"
    and "raw_complexity input = None"
  shows "length (thoughtHistory st') = Suc (length (thoughtHistory st))
       \<and> res_branches r = Object_keys (branches st')
       \<and> res_complexity r =
           (if length (thoughtHistory st') > 10 \<or> length (res_branches r) > 2 then ''complex''
            else if length (thoughtHistory st') > 5
                    \<or> length (filter (\<lambda>t. isRevision t = Some True) (thoughtHistory st')) > 1
                    \<or> length (res_branches r) > 0 then ''medium''
            else ''simple'')"
proof -
  from assms(1) obtain v v' where v: "validateThoughtData input = Inr v"
    and e: "enrich env (thoughtHistory st) v = Inr v'"
    and s: "storeAndRespond st v' = (st', Success r)"
    by (rule processThought_Success)
  have r: "r = buildResponse st' v'" and h: "thoughtHistory st' = thoughtHistory st @ [v']"
    using storeAndRespond_Success [OF s] by simp_all
  have c: "complexity v' = None"
    using enrich_fields(9) [OF e] validate_fields(13) [OF v] assms(2) by simp
  have b: "res_branches r = Object_keys (branches st')"
    by (simp add: r buildResponse_def)
  have "res_complexity r = complexity_name (estimateComplexity st')"
    by (simp add: r buildResponse_def c)
  then have "res_complexity r =
           (if length (thoughtHistory st') > 10 \<or> length (res_branches r) > 2 then ''complex''
            else if length (thoughtHistory st') > 5
                    \<or> length (filter (\<lambda>t. isRevision t = Some True) (thoughtHistory st')) > 1
                    \<or> length (res_branches r) > 0 then ''medium''
            else ''simple'')"
    by (simp add: estimateComplexity_def b truthy_bool_def Let_def)
  with b h show ?thesis by simp
qed

theorem estimated_complexity_witness:
  "\<exists>st' r. processThought quiet initial_state alt_branch_submission = (st', Success r)
     \<and> raw_complexity alt_branch_submission = None
     \<and> res_branches r = [''alt''] \<and> res_complexity r = ''medium''"
proof -
  define out where "out = processThought quiet initial_state alt_branch_submission"
  have "is_Success (snd out)" and b: "res_branches (the_response (snd out)) = [''alt'']"
    unfolding out_def by code_simp+
  then obtain r where r: "snd out = Success r"
    by (cases "snd out") auto
  then have o: "processThought quiet initial_state alt_branch_submission = (fst out, Success r)"
    unfolding out_def by (metis prod.collapse)
  have c: "raw_complexity alt_branch_submission = None"
    by (simp add: alt_branch_submission_def submission_def)
  have l: "length (thoughtHistory initial_state) = 0"
    by (simp add: initial_state_def)
  from b r have b': "res_branches r = [''alt'']" by simp
  note t = estimated_complexity [OF o c]
  have k: "length (thoughtHistory (fst out)) = Suc 0"
    using t [THEN conjunct1] l by simp
  have "res_complexity r = ''medium''"
    using t [THEN conjunct2, THEN conjunct2] unfolding b' k by simp
  with o c b' show ?thesis by blast
qed

section \<open>Quality assessment\<close>

lemma processThought_stored:
  assumes "processThought env st input = (st', Success r)"
  shows "thoughtHistory st' \<noteq> []"
    and "quality (last (thoughtHistory st')) = raw_quality input"
    and "dependencies (last (thoughtHistory st')) = raw_dependencies input"
    and "butlast (thoughtHistory st') = thoughtHistory st"
proof -
  from assms obtain v v' where v: "validateThoughtData input = Inr v"
    and e: "enrich env (thoughtHistory st) v = Inr v'"
    and s: "storeAndRespond st v' = (st', Success r)"
    by (rule processThought_Success)
  have h: "thoughtHistory st' = thoughtHistory st @ [v']"
    using s by (rule storeAndRespond_Success)
  show "thoughtHistory st' \<noteq> []" by (simp add: h)
  show "quality (last (thoughtHistory st')) = raw_quality input"
    by (simp add: h enrich_fields [OF e] validate_fields [OF v])
  show "dependencies (last (thoughtHistory st')) = raw_dependencies input"
    by (simp add: h enrich_fields [OF e] validate_fields [OF v])
  show "butlast (thoughtHistory st') = thoughtHistory st" by (simp add: h)
qed




section \<open>Implicit dependencies\<close>

text \<open>
  Claim C7, as stated, fails: \<^verbatim>\<open>processThought\<close> never calls
  \<^verbatim>\<open>detectSemanticRelationships\<close>. The second of two accepted thoughts shares the
  keywords \<^verbatim>\<open>sorting\<close> and \<^verbatim>\<open>algorithm\<close> with the first and is stored without any
  dependency.
\<close>

theorem shared_keywords_add_no_dependency_counterexample:
  "keyword_overlap (extractKeywords ''Sorting algorithm comparison for large lists'')
                   (extractKeywords ''Sorting algorithm choice: quicksort'')
     = [''sorting'', ''algorithm'']
   \<and> map thoughtNumber (thoughtHistory (run initial_state [(quiet, sorting_first), (quiet, sorting_second)]))
     = [1, 2]
   \<and> map dependencies (thoughtHistory (run initial_state [(quiet, sorting_first), (quiet, sorting_second)]))
     = [None, None]"
  by code_simp

lemma semanticConnections_member:
  assumes "p \<in> set history" and "thoughtKeywords p = Some pk"
    and "length (keyword_overlap pk kws) \<ge> 2"
    and "\<not> includes_dep (dependencies nt) (thoughtNumber p)"
  shows "thoughtNumber p \<in> set (semanticConnections history nt kws)"
  using assms unfolding semanticConnections_def
  by (auto intro!: bexI [of _ p])

text \<open>
  Claim C7, amended. \<^verbatim>\<open>detectSemanticRelationships\<close>, applied to a new thought when the
  history holds at least two thoughts, appends to the thought's dependencies the number
  of every prior thought with stored keywords that shares at least 2 keywords with it and
  whose number is not among them already; the explicit dependencies stay in front.
  \<^verbatim>\<open>processThought\<close> does not apply it: the record it stores has the dependencies the
  caller sent.
\<close>

theorem semantic_dependency_is_appended:
  "(length history \<ge> 2 \<and> p \<in> set history \<and> thoughtKeywords p = Some pk
      \<and> length (keyword_overlap pk (extractKeywords (thought newThought))) \<ge> 2
      \<and> \<not> includes_dep (dependencies newThought) (thoughtNumber p)
    \<longrightarrow> (\<exists>conns. dependencies (detectSemanticRelationships history newThought)
                    = Some ((case dependencies newThought of None \<Rightarrow> [] | Some ds \<Rightarrow> ds) @ conns)
               \<and> thoughtNumber p \<in> set conns))
   \<and> (processThought env st input = (st', Success r)
    \<longrightarrow> dependencies (last (thoughtHistory st')) = raw_dependencies input)"
proof (intro conjI impI)
  assume a: "length history \<ge> 2 \<and> p \<in> set history \<and> thoughtKeywords p = Some pk
      \<and> length (keyword_overlap pk (extractKeywords (thought newThought))) \<ge> 2
      \<and> \<not> includes_dep (dependencies newThought) (thoughtNumber p)"
  define kws where "kws = extractKeywords (thought newThought)"
  define nt where "nt = newThought\<lparr> thoughtKeywords := Some kws \<rparr>"
  define conns where "conns = semanticConnections history nt kws"
  have d: "dependencies nt = dependencies newThought" by (simp add: nt_def)
  have m: "thoughtNumber p \<in> set conns"
    unfolding conns_def using a
    by (intro semanticConnections_member [where pk = pk]) (simp_all add: d kws_def)
  then have "length conns > 0" by (cases conns) auto
  with a have "dependencies (detectSemanticRelationships history newThought)
      = Some ((case dependencies newThought of None \<Rightarrow> [] | Some ds \<Rightarrow> ds) @ conns)"
    by (simp add: detectSemanticRelationships_def Let_def kws_def [symmetric] nt_def [symmetric]
        conns_def [symmetric] d)
  with m show "\<exists>conns. dependencies (detectSemanticRelationships history newThought)
                    = Some ((case dependencies newThought of None \<Rightarrow> [] | Some ds \<Rightarrow> ds) @ conns)
               \<and> thoughtNumber p \<in> set conns"
    by blast
next
  assume "processThought env st input = (st', Success r)"
  then show "dependencies (last (thoughtHistory st')) = raw_dependencies input"
    by (rule processThought_stored)
qed

theorem semantic_dependency_is_appended_witness:
  "length two_stored = 2 \<and> thoughtNumber (hd two_stored) = 1
   \<and> dependencies quicksort_thought = None
   \<and> dependencies (detectSemanticRelationships two_stored quicksort_thought) = Some [1]
   \<and> (\<exists>st' r. processThought quiet initial_state sorting_second = (st', Success r)
         \<and> dependencies (last (thoughtHistory st')) = None)"
proof -
  define pk where "pk = [''sorting'', ''algorithm'', ''comparison'', ''large'', ''lists'']"
  have l: "length two_stored = 2" by (simp add: two_stored_def)
  have n: "thoughtNumber (hd two_stored) = 1"
    by (simp add: two_stored_def sorting_thought_def)
  have k: "thoughtKeywords (hd two_stored) = Some pk"
    unfolding pk_def by (simp add: two_stored_def sorting_thought_def)
  have o: "length (keyword_overlap pk (extractKeywords (thought quicksort_thought))) = 2"
    unfolding pk_def by code_simp
  have d: "dependencies quicksort_thought = None"
    by (simp add: quicksort_thought_def ten_words_thought_def)
  have i: "\<not> includes_dep (dependencies quicksort_thought) (thoughtNumber (hd two_stored))"
    by (simp add: d includes_dep_def)
  have c: "semanticConnections two_stored
             (quicksort_thought\<lparr> thoughtKeywords := Some (extractKeywords (thought quicksort_thought)) \<rparr>)
             (extractKeywords (thought quicksort_thought)) = [1]"
    by code_simp
  have "two_stored \<noteq> []" using l by auto
  then have mem: "hd two_stored \<in> set two_stored" by (rule hd_in_set)
  define out where "out = processThought quiet initial_state sorting_second"
  have "is_Success (snd out)"
    unfolding out_def by code_simp
  then obtain r where "snd out = Success r"
    by (cases "snd out") auto
  then have s: "processThought quiet initial_state sorting_second = (fst out, Success r)"
    unfolding out_def by (metis prod.collapse)
  note t = semantic_dependency_is_appended
    [of two_stored "hd two_stored" pk quicksort_thought quiet initial_state sorting_second "fst out" r]
  from t [THEN conjunct1] l mem k o i
  obtain conns where "dependencies (detectSemanticRelationships two_stored quicksort_thought)
                    = Some ((case dependencies quicksort_thought of None \<Rightarrow> [] | Some ds \<Rightarrow> ds) @ conns)"
    by auto
  moreover have "dependencies (detectSemanticRelationships two_stored quicksort_thought) = Some [1]"
    using l c by (simp add: detectSemanticRelationships_def Let_def d)
  ultimately have 1: "dependencies (detectSemanticRelationships two_stored quicksort_thought) = Some [1]"
    by simp
  have "dependencies (last (thoughtHistory (fst out))) = raw_dependencies sorting_second"
    using t [THEN conjunct2] s by simp
  then have 2: "dependencies (last (thoughtHistory (fst out))) = None"
    by (simp add: sorting_second_def submission_def)
  from l n d 1 2 s show ?thesis by blast
qed

section \<open>The state after a call\<close>

lemma storeAndRespond_state:
  "fst (storeAndRespond st v) =
     (case handleBranching (branches st) v of
        Inl e \<Rightarrow> st\<lparr> thoughtHistory := thoughtHistory st @ [v] \<rparr>
      | Inr b \<Rightarrow> st\<lparr> thoughtHistory := thoughtHistory st @ [v], branches := b \<rparr>)"
  by (simp add: storeAndRespond_def Let_def split: sum.splits)

lemma processThought_state:
  "fst (processThought env st input) = st
   \<or> (\<exists>v v'. validateThoughtData input = Inr v
          \<and> enrich env (thoughtHistory st) v = Inr v'
          \<and> fst (processThought env st input) = fst (storeAndRespond st v'))"
  by (auto simp: processThought_def split: sum.splits)

lemma processThought_history_cases:
  "thoughtHistory (fst (processThought env st input)) = thoughtHistory st
   \<or> (\<exists>v. thoughtHistory (fst (processThought env st input)) = thoughtHistory st @ [v]
          \<and> thoughtNumber v \<le> totalThoughts v)"
  using processThought_state [of env st input]
proof (elim disjE exE conjE)
  assume "fst (processThought env st input) = st"
  then show ?thesis by simp
next
  fix v v'
  assume e: "enrich env (thoughtHistory st) v = Inr v'"
    and s: "fst (processThought env st input) = fst (storeAndRespond st v')"
  have "thoughtNumber v' \<le> totalThoughts v'"
    by (simp add: enrich_fields [OF e])
  then show ?thesis
    by (auto simp: s storeAndRespond_history)
qed

lemma run_snoc: "run st (calls @ [c]) = fst (processThought (fst c) (run st calls) (snd c))"
  by (induction calls arbitrary: st) simp_all

lemma run_history_grows: "\<exists>new. thoughtHistory (run st calls) = thoughtHistory st @ new"
proof (induction calls rule: rev_induct)
  case Nil
  show ?case by simp
next
  case (snoc c calls)
  then obtain new where n: "thoughtHistory (run st calls) = thoughtHistory st @ new" ..
  show ?case
    using processThought_history_cases [of "fst c" "run st calls" "snd c"]
    by (auto simp: run_snoc n)
qed

lemma run_totals:
  assumes "\<forall>t \<in> set (thoughtHistory st). thoughtNumber t \<le> totalThoughts t"
  shows "\<forall>t \<in> set (thoughtHistory (run st calls)). thoughtNumber t \<le> totalThoughts t"
proof (induction calls rule: rev_induct)
  case Nil
  show ?case using assms by simp
next
  case (snoc c calls)
  show ?case
    using processThought_history_cases [of "fst c" "run st calls" "snd c"] snoc
    by (auto simp: run_snoc)
qed

section \<open>The declared total across a session\<close>

text \<open>
  Claim C2, as stated, fails: the code keeps no running total for the session. Each
  record's own \<^verbatim>\<open>totalThoughts\<close> is raised to its own \<^verbatim>\<open>thoughtNumber\<close> and nothing
  else. After thought 6 (total 6 in the response), thought 2 declared with total 3 is
  accepted and answered with total 3: below the largest number seen, and lower than
  the total before.
\<close>

theorem running_total_can_drop_counterexample:
  "map is_Success (responses initial_state lowered_total_session) = [True, True]
   \<and> map res_totalThoughts (map the_response (responses initial_state lowered_total_session)) = [6, 3]
   \<and> map thoughtNumber (thoughtHistory (run initial_state lowered_total_session)) = [6, 2]
   \<and> map totalThoughts (thoughtHistory (run initial_state lowered_total_session)) = [6, 3]"
  by code_simp

text \<open>
  Claim C2, amended. In every state a session reaches, each stored record has a declared
  total at least its own sequence number. Hence, once a record is stored, the largest
  declared total among the stored records is at least the largest sequence number among
  them, and since the history only grows, that largest total never decreases as the
  session goes on.
\<close>

theorem stored_totals_cover_numbers:
  assumes "st = run initial_state calls" and "thoughtHistory st \<noteq> []"
  shows "(\<forall>t \<in> set (thoughtHistory st). thoughtNumber t \<le> totalThoughts t)
       \<and> highest_number st \<le> highest_total st
       \<and> highest_total st \<le> highest_total (run st later)"
proof -
  have inv: "\<forall>t \<in> set (thoughtHistory st). thoughtNumber t \<le> totalThoughts t"
    unfolding assms(1) by (rule run_totals) (simp add: initial_state_def)
  let ?H = "set (thoughtHistory st)"
  have ne: "?H \<noteq> {}" using assms(2) by simp
  have "highest_number st \<le> highest_total st"
    unfolding highest_number_def highest_total_def
  proof (rule Max.boundedI)
    show "finite (thoughtNumber ` ?H)" by simp
    show "thoughtNumber ` ?H \<noteq> {}" using ne by simp
    fix a assume "a \<in> thoughtNumber ` ?H"
    then obtain t where t: "t \<in> ?H" "a = thoughtNumber t" by auto
    then have "a \<le> totalThoughts t" using inv by simp
    also have "totalThoughts t \<le> Max (totalThoughts ` ?H)"
      using t(1) by (intro Max_ge) simp_all
    finally show "a \<le> Max (totalThoughts ` ?H)" .
  qed
  moreover have "highest_total st \<le> highest_total (run st later)"
  proof -
    obtain new where "thoughtHistory (run st later) = thoughtHistory st @ new"
      using run_history_grows by blast
    then have "totalThoughts ` ?H \<subseteq> totalThoughts ` set (thoughtHistory (run st later))"
      by auto
    then show ?thesis
      unfolding highest_total_def using ne by (intro Max_mono) simp_all
  qed
  ultimately show ?thesis using inv by simp
qed

theorem stored_totals_cover_numbers_witness:
  "thoughtHistory (run initial_state lowered_total_session) \<noteq> []
   \<and> highest_number (run initial_state lowered_total_session) = 6
   \<and> highest_total (run initial_state lowered_total_session) = 6
   \<and> highest_total (run initial_state (take 1 lowered_total_session))
       \<le> highest_total (run (run initial_state (take 1 lowered_total_session)) (drop 1 lowered_total_session))"
proof -
  have n: "map thoughtNumber (thoughtHistory (run initial_state lowered_total_session)) = [6, 2]"
    and t: "map totalThoughts (thoughtHistory (run initial_state lowered_total_session)) = [6, 3]"
    and o: "map thoughtNumber (thoughtHistory (run initial_state (take 1 lowered_total_session))) = [6]"
    by code_simp+
  have ne: "thoughtHistory (run initial_state lowered_total_session) \<noteq> []" using n by auto
  have ne1: "thoughtHistory (run initial_state (take 1 lowered_total_session)) \<noteq> []" using o by auto
  have hn: "highest_number (run initial_state lowered_total_session) = 6"
    unfolding highest_number_def image_set n by simp
  have ht: "highest_total (run initial_state lowered_total_session) = 6"
    unfolding highest_total_def image_set t by simp
  from stored_totals_cover_numbers [OF refl ne1, of "drop 1 lowered_total_session"]
  have "highest_total (run initial_state (take 1 lowered_total_session))
       \<le> highest_total (run (run initial_state (take 1 lowered_total_session)) (drop 1 lowered_total_session))"
    by simp
  with ne hn ht show ?thesis by simp
qed

section \<open>The branch index\<close>

lemma set_Object_entries: "set (Object_entries b) = set b"
  by (auto simp: Object_entries_def)

lemma set_Object_keys: "set (Object_keys b) = fst ` set b"
  by (simp add: Object_keys_def set_Object_entries)

lemma bucket_push_Some:
  assumes "bucket_push b k v = Some b'"
  shows "map_of b' = (map_of b)(k \<mapsto> (case map_of b k of None \<Rightarrow> [v] | Some bucket \<Rightarrow> bucket @ [v]))"
    and "distinct (map fst b) \<Longrightarrow> distinct (map fst b')"
    and "map_of b k = None \<Longrightarrow> k \<notin> set Object_prototype_names"
    and "k \<in> fst ` set b'"
proof -
  show "map_of b' = (map_of b)(k \<mapsto> (case map_of b k of None \<Rightarrow> [v] | Some bucket \<Rightarrow> bucket @ [v]))"
    using assms
    by (auto simp: bucket_push_def update_conv' map_add_def fun_eq_iff
        split: option.splits if_splits)
  show "distinct (map fst b')" if "distinct (map fst b)"
    using assms that
    by (auto simp: bucket_push_def distinct_update map_of_eq_None_iff
        split: option.splits if_splits)
  show "k \<notin> set Object_prototype_names" if "map_of b k = None"
    using assms that by (auto simp: bucket_push_def split: if_splits)
  have "map_of b' k \<noteq> None"
    using \<open>map_of b' = _\<close> by simp
  then show "k \<in> fst ` set b'"
    by (simp add: map_of_eq_None_iff)
qed

lemma in_set_not_Nil: "x \<in> set xs \<Longrightarrow> xs \<noteq> []"
  by auto

lemma filed_under_unique: "filed_under k t \<Longrightarrow> filed_under k' t \<Longrightarrow> k' = k"
  by (simp add: filed_under_def)

lemma handleBranching_cases:
  obtains (skip) "\<forall>k. \<not> filed_under k v" and "handleBranching b v = Inr b"
  | (throws) k e where "filed_under k v" and "handleBranching b v = Inl e"
      and "bucket_push b k v = None"
  | (pushed) k b' where "filed_under k v" and "handleBranching b v = Inr b'"
      and "bucket_push b k v = Some b'"
proof (cases "truthy_num (branchFromThought v) \<and> truthy_str (branchId v)")
  case False
  then show ?thesis
    using skip by (auto simp: handleBranching_def filed_under_def)
next
  case True
  then obtain k where k: "branchId v = Some k"
    by (cases "branchId v") (auto simp: truthy_str_def)
  with True have f: "filed_under k v" by (simp add: filed_under_def)
  show ?thesis
  proof (cases "bucket_push b k v")
    case None
    with True k f show ?thesis
      using throws by (simp add: handleBranching_def)
  next
    case (Some b')
    with True k f show ?thesis
      using pushed by (simp add: handleBranching_def)
  qed
qed

lemma branch_index_ok_store:
  assumes ok: "branch_index_ok st"
  shows "branch_index_ok (fst (storeAndRespond st v))"
proof (cases rule: handleBranching_cases [of v "branches st"])
  case skip
  then show ?thesis
    using ok by (simp add: storeAndRespond_state branch_index_ok_def)
next
  case (throws k e)
  from throws(3) have n: "map_of (branches st) k = None" and p: "k \<in> set Object_prototype_names"
    by (auto simp: bucket_push_def split: option.splits if_splits)
  have other: "filter (filed_under k') (thoughtHistory st @ [v]) = filter (filed_under k') (thoughtHistory st)"
    if "k' \<noteq> k" for k'
    using that throws(1) by (auto dest: filed_under_unique)
  have st': "fst (storeAndRespond st v) = st\<lparr> thoughtHistory := thoughtHistory st @ [v] \<rparr>"
    by (simp add: storeAndRespond_state throws(2))
  have m: "map_of (branches st) k' =
             (if k' \<notin> set Object_prototype_names
                 \<and> filter (filed_under k') (thoughtHistory st @ [v]) \<noteq> []
              then Some (filter (filed_under k') (thoughtHistory st @ [v])) else None)" for k'
  proof (cases "k' = k")
    case True
    then show ?thesis by (simp add: n p del: filter_append)
  next
    case False
    then show ?thesis
      using ok by (simp add: other branch_index_ok_def del: filter_append)
  qed
  have d: "distinct (map fst (branches st))"
    using ok by (simp add: branch_index_ok_def)
  show ?thesis
    unfolding st' branch_index_ok_def
  proof (intro conjI allI)
    show "distinct (map fst (branches (st\<lparr> thoughtHistory := thoughtHistory st @ [v] \<rparr>)))"
      using d by simp
    fix k'
    show "map_of (branches (st\<lparr> thoughtHistory := thoughtHistory st @ [v] \<rparr>)) k' =
         (if k' \<notin> set Object_prototype_names
             \<and> filter (filed_under k') (thoughtHistory (st\<lparr> thoughtHistory := thoughtHistory st @ [v] \<rparr>)) \<noteq> []
          then Some (filter (filed_under k') (thoughtHistory (st\<lparr> thoughtHistory := thoughtHistory st @ [v] \<rparr>)))
          else None)"
      using m [of k'] by (simp del: filter_append)
  qed
next
  case (pushed k b')
  note bp = bucket_push_Some [OF pushed(3)]
  have other: "filter (filed_under k') (thoughtHistory st @ [v]) = filter (filed_under k') (thoughtHistory st)"
    if "k' \<noteq> k" for k'
    using that pushed(1) by (auto dest: filed_under_unique)
  have this_one: "filter (filed_under k) (thoughtHistory st @ [v])
      = filter (filed_under k) (thoughtHistory st) @ [v]"
    using pushed(1) by simp
  have np: "k \<notin> set Object_prototype_names"
  proof (cases "map_of (branches st) k")
    case None
    then show ?thesis by (rule bp(3))
  next
    case (Some bucket)
    then show ?thesis using ok by (auto simp: branch_index_ok_def split: if_splits)
  qed
  have old: "(case map_of (branches st) k of None \<Rightarrow> [v] | Some bucket \<Rightarrow> bucket @ [v])
      = filter (filed_under k) (thoughtHistory st) @ [v]"
    using ok np by (auto simp: branch_index_ok_def split: option.splits if_splits)
  have st': "fst (storeAndRespond st v)
      = st\<lparr> thoughtHistory := thoughtHistory st @ [v], branches := b' \<rparr>"
    by (simp add: storeAndRespond_state pushed(2))
  have d: "distinct (map fst b')"
    using ok by (intro bp(2)) (simp add: branch_index_ok_def)
  have m: "map_of b' k' =
             (if k' \<notin> set Object_prototype_names
                 \<and> filter (filed_under k') (thoughtHistory st @ [v]) \<noteq> []
              then Some (filter (filed_under k') (thoughtHistory st @ [v])) else None)" for k'
  proof (cases "k' = k")
    case True
    then show ?thesis by (simp add: bp(1) old np this_one del: filter_append)
  next
    case False
    then show ?thesis
      using ok by (simp add: bp(1) other branch_index_ok_def del: filter_append)
  qed
  show ?thesis
    unfolding st' branch_index_ok_def using d m by simp
qed

lemma branch_index_ok_step:
  assumes "branch_index_ok st"
  shows "branch_index_ok (fst (processThought env st input))"
  using processThought_state [of env st input] assms
  by (auto intro: branch_index_ok_store)

lemma branch_index_ok_run:
  assumes "branch_index_ok st"
  shows "branch_index_ok (run st calls)"
  using assms by (induction calls arbitrary: st) (simp_all add: branch_index_ok_step)

lemma branch_index_ok_initial: "branch_index_ok initial_state"
  by (simp add: branch_index_ok_def initial_state_def)

text \<open>
  Claim C6, as stated, fails: a record is filed in a branch bucket only when
  \<^verbatim>\<open>branchFromThought\<close> is set as well. A submission with \<^verbatim>\<open>branchId\<close> alone is
  accepted and stored in the history, and appears in no bucket.
\<close>

theorem branch_id_alone_is_not_filed_counterexample:
  "is_Success (snd (processThought quiet initial_state branch_id_only_submission))
   \<and> map branchId (thoughtHistory (fst (processThought quiet initial_state branch_id_only_submission)))
       = [Some ''alt'']
   \<and> branches (fst (processThought quiet initial_state branch_id_only_submission)) = []"
  by code_simp

text \<open>
  Claim C6, amended. In every state a session reaches, the branch ids are distinct and
  each bucket is the list, in append order, of the stored records filed under its id,
  that is, having both \<^verbatim>\<open>branchFromThought\<close> and that \<^verbatim>\<open>branchId\<close> set. So a stored
  record with both fields set, whose id is not the name of a property every object
  inherits, is in the bucket of its id and in no other, besides being in the history.
  A submission with \<^verbatim>\<open>branchFromThought\<close> 2 and \<^verbatim>\<open>branchId\<close> \<^verbatim>\<open>alt\<close> that is answered
  with success has \<^verbatim>\<open>alt\<close> among the branches of the response.
\<close>

theorem branch_buckets_follow_history:
  "(st = run initial_state calls
      \<longrightarrow> distinct (map fst (branches st))
        \<and> (\<forall>(k, bucket) \<in> set (branches st).
               bucket = filter (filed_under k) (thoughtHistory st)
               \<and> (\<forall>t \<in> set bucket. branchId t = Some k))
        \<and> (\<forall>t \<in> set (thoughtHistory st). \<forall>k.
               filed_under k t \<and> k \<notin> set Object_prototype_names
               \<longrightarrow> (\<exists>bucket. (k, bucket) \<in> set (branches st) \<and> t \<in> set bucket)))
   \<and> (processThought env st0 input = (st1, Success r)
        \<and> raw_branchFromThought input = Some 2 \<and> raw_branchId input = Some ''alt''
      \<longrightarrow> ''alt'' \<in> set (res_branches r))"
proof (intro conjI impI)
  assume st: "st = run initial_state calls"
  have ok: "branch_index_ok st"
    unfolding st by (rule branch_index_ok_run) (rule branch_index_ok_initial)
  then show d: "distinct (map fst (branches st))"
    by (simp add: branch_index_ok_def)
  show "\<forall>(k, bucket) \<in> set (branches st).
               bucket = filter (filed_under k) (thoughtHistory st)
               \<and> (\<forall>t \<in> set bucket. branchId t = Some k)"
  proof (clarify, rule conjI)
    fix k bucket
    assume "(k, bucket) \<in> set (branches st)"
    with d have "map_of (branches st) k = Some bucket" by simp
    with ok show b: "bucket = filter (filed_under k) (thoughtHistory st)"
      by (auto simp: branch_index_ok_def split: if_splits)
    show "\<forall>t \<in> set bucket. branchId t = Some k"
      unfolding b by (simp add: filed_under_def)
  qed
  show "\<forall>t \<in> set (thoughtHistory st). \<forall>k.
               filed_under k t \<and> k \<notin> set Object_prototype_names
               \<longrightarrow> (\<exists>bucket. (k, bucket) \<in> set (branches st) \<and> t \<in> set bucket)"
  proof (intro ballI allI impI)
    fix t k
    assume t: "t \<in> set (thoughtHistory st)"
      and f: "filed_under k t \<and> k \<notin> set Object_prototype_names"
    then have m: "t \<in> set (filter (filed_under k) (thoughtHistory st))" by simp
    then have "filter (filed_under k) (thoughtHistory st) \<noteq> []" by (rule in_set_not_Nil)
    with ok f have "map_of (branches st) k = Some (filter (filed_under k) (thoughtHistory st))"
      by (simp add: branch_index_ok_def)
    then have "(k, filter (filed_under k) (thoughtHistory st)) \<in> set (branches st)"
      by (rule map_of_SomeD)
    with m show "\<exists>bucket. (k, bucket) \<in> set (branches st) \<and> t \<in> set bucket" by blast
  qed
next
  assume a: "processThought env st0 input = (st1, Success r)
        \<and> raw_branchFromThought input = Some 2 \<and> raw_branchId input = Some ''alt''"
  then obtain v v' where v: "validateThoughtData input = Inr v"
    and e: "enrich env (thoughtHistory st0) v = Inr v'"
    and s: "storeAndRespond st0 v' = (st1, Success r)"
    by (auto elim: processThought_Success)
  have r: "r = buildResponse st1 v'"
    and h: "handleBranching (branches st0) v' = Inr (branches st1)"
    using storeAndRespond_Success [OF s] by simp_all
  have "branchFromThought v' = Some 2" "branchId v' = Some ''alt''"
    using a by (simp_all add: enrich_fields [OF e] validate_fields [OF v])
  with h have "bucket_push (branches st0) ''alt'' v' = Some (branches st1)"
    by (auto simp: handleBranching_def truthy_num_def truthy_str_def split: option.splits)
  then have "''alt'' \<in> fst ` set (branches st1)" by (rule bucket_push_Some)
  then show "''alt'' \<in> set (res_branches r)"
    by (simp add: r buildResponse_def set_Object_keys)
qed

theorem branch_buckets_follow_history_witness:
  "branches (run initial_state [(quiet, alt_branch_submission)])
     = [(''alt'', filter (filed_under ''alt'')
                    (thoughtHistory (run initial_state [(quiet, alt_branch_submission)])))]
   \<and> map thoughtNumber (thoughtHistory (run initial_state [(quiet, alt_branch_submission)])) = [3]
   \<and> raw_branchFromThought alt_branch_submission = Some 2
   \<and> raw_branchId alt_branch_submission = Some ''alt''
   \<and> (\<exists>st1 r. processThought quiet initial_state alt_branch_submission = (st1, Success r)
         \<and> ''alt'' \<in> set (res_branches r))"
proof -
  define out where "out = processThought quiet initial_state alt_branch_submission"
  have k: "map fst (branches (fst out)) = [''alt'']"
    and n: "map thoughtNumber (thoughtHistory (fst out)) = [3]"
    and "is_Success (snd out)"
    unfolding out_def by code_simp+
  then obtain r where "snd out = Success r"
    by (cases "snd out") auto
  then have o: "processThought quiet initial_state alt_branch_submission = (fst out, Success r)"
    unfolding out_def by (metis prod.collapse)
  have f: "raw_branchFromThought alt_branch_submission = Some 2"
    and b: "raw_branchId alt_branch_submission = Some ''alt''"
    by (simp_all add: alt_branch_submission_def submission_def)
  have run: "run initial_state [(quiet, alt_branch_submission)] = fst out"
    by (simp add: out_def)
  note t = branch_buckets_follow_history
    [of "fst out" "[(quiet, alt_branch_submission)]" quiet initial_state alt_branch_submission
        "fst out" r]
  have all: "\<forall>(k, bucket) \<in> set (branches (fst out)).
         bucket = filter (filed_under k) (thoughtHistory (fst out))"
    using t [THEN conjunct1] run by auto
  from k obtain bucket where bs: "branches (fst out) = [(''alt'', bucket)]"
    by (cases "branches (fst out)") auto
  with all have "bucket = filter (filed_under ''alt'') (thoughtHistory (fst out))" by simp
  with bs have 1: "branches (fst out)
      = [(''alt'', filter (filed_under ''alt'') (thoughtHistory (fst out)))]"
    by simp
  have 2: "''alt'' \<in> set (res_branches r)"
    using t [THEN conjunct2] o f b by simp
  show ?thesis
    unfolding run using 1 n f b o 2 by blast
qed

section \<open>Rounding to a double is monotone\<close>


lemma round_half_even_of_int [simp]: "round_half_even (of_int k) = k"
  by (simp add: round_half_even_def)

lemma round_half_even_numeral [simp]: "round_half_even (numeral n) = numeral n"
  using round_half_even_of_int [of "numeral n"] by simp








section \<open>When a submission succeeds\<close>












section \<open>Keyword extraction against its description\<close>

lemma set_first_occurrences [simp]: "set (first_occurrences xs) = set xs"
  by (induction xs) auto

lemma distinct_first_occurrences [simp]: "distinct (first_occurrences xs)"
  by (induction xs) auto

lemma first_occurrences_snoc:
  "first_occurrences (xs @ [x]) =
     (if x \<in> set xs then first_occurrences xs else first_occurrences xs @ [x])"
  by (induction xs) auto

lemma count_list_snoc: "count_list (xs @ [x]) y = count_list xs y + (if x = y then 1 else 0)"
  by (induction xs) auto

lemma count_list_pos: "x \<in> set xs \<Longrightarrow> 0 < count_list xs x"
  by (induction xs) auto

lemma map_of_tabulate:
  "map_of (map (\<lambda>w. (w, f w)) us) w = (if w \<in> set us then Some (f w) else None)"
  by (induction us) auto

lemma update_tabulate_present:
  "w \<in> set us \<Longrightarrow> distinct us \<Longrightarrow>
   AList.update w v (map (\<lambda>u. (u, f u)) us) = map (\<lambda>u. (u, if u = w then v else f u)) us"
proof (induction us)
  case Nil
  then show ?case by simp
next
  case (Cons u us)
  show ?case
  proof (cases "u = w")
    case True
    with Cons.prems have "w \<notin> set us" by simp
    then have "map (\<lambda>u. (u, if u = w then v else f u)) us = map (\<lambda>u. (u, f u)) us"
      by (intro map_cong) auto
    with True show ?thesis by simp
  next
    case False
    with Cons show ?thesis by simp
  qed
qed

lemma update_tabulate_absent:
  "w \<notin> set us \<Longrightarrow> AList.update w v (map (\<lambda>u. (u, f u)) us) = map (\<lambda>u. (u, f u)) us @ [(w, v)]"
  by (induction us) auto

lemma count_words_snoc: "count_words (ws @ [w]) = count_word (count_words ws) w"
  by (simp add: count_words_def)

lemma inherited_None: "w \<notin> set Object_prototype_names \<Longrightarrow> inherited w = None"
  by (auto simp: inherited_def Object_prototype_names_def)

lemma count_words_tabulate:
  assumes "\<forall>w \<in> set ws. w \<notin> set Object_prototype_names"
  shows "count_words ws = map (\<lambda>w. (w, JNum (int (count_list ws w)))) (first_occurrences ws)"
  using assms
proof (induction ws rule: rev_induct)
  case Nil
  show ?case by (simp add: count_words_def)
next
  case (snoc w ws)
  then have ih: "count_words ws = map (\<lambda>u. (u, JNum (int (count_list ws u)))) (first_occurrences ws)"
    and w: "w \<notin> set Object_prototype_names"
    by simp_all
  from w have np: "w \<noteq> ''__proto__''" by (auto simp: Object_prototype_names_def)
  have step: "count_words (ws @ [w])
      = AList.update w (or_zero_plus_one (get_property (count_words ws) w)) (count_words ws)"
    using np by (simp add: count_words_snoc count_word_def set_property_def)
  show ?case
  proof (cases "w \<in> set ws")
    case True
    then have g: "get_property (count_words ws) w = Some (JNum (int (count_list ws w)))"
      by (simp add: get_property_def ih map_of_tabulate)
    have "0 < count_list ws w" using True by (rule count_list_pos)
    then have p: "or_zero_plus_one (get_property (count_words ws) w) = JNum (int (count_list ws w) + 1)"
      by (simp add: g or_zero_plus_one_def)
    have "count_words (ws @ [w])
        = AList.update w (JNum (int (count_list ws w) + 1))
            (map (\<lambda>u. (u, JNum (int (count_list ws u)))) (first_occurrences ws))"
      unfolding step p by (simp only: ih)
    also have "\<dots> = map (\<lambda>u. (u, if u = w then JNum (int (count_list ws w) + 1)
                                    else JNum (int (count_list ws u)))) (first_occurrences ws)"
      using True by (intro update_tabulate_present) simp_all
    also have "\<dots> = map (\<lambda>u. (u, JNum (int (count_list (ws @ [w]) u)))) (first_occurrences ws)"
      by (intro map_cong) (auto simp: count_list_snoc)
    finally show ?thesis
      using True by (simp add: first_occurrences_snoc)
  next
    case False
    then have g: "get_property (count_words ws) w = None"
      by (simp add: get_property_def ih map_of_tabulate inherited_None [OF w])
    have p: "or_zero_plus_one (get_property (count_words ws) w) = JNum 1"
      by (simp add: g or_zero_plus_one_def)
    have "count_words (ws @ [w])
        = AList.update w (JNum 1)
            (map (\<lambda>u. (u, JNum (int (count_list ws u)))) (first_occurrences ws))"
      unfolding step p by (simp only: ih)
    also have "\<dots> = map (\<lambda>u. (u, JNum (int (count_list ws u)))) (first_occurrences ws) @ [(w, JNum 1)]"
      using False by (intro update_tabulate_absent) simp
    also have "map (\<lambda>u. (u, JNum (int (count_list ws u)))) (first_occurrences ws)
        = map (\<lambda>u. (u, JNum (int (count_list (ws @ [w]) u)))) (first_occurrences ws)"
      using False by (intro map_cong) (auto simp: count_list_snoc)
    also have "(w, JNum 1) = (w, JNum (int (count_list (ws @ [w]) w)))"
      using False by (simp add: count_list_snoc)
    finally show ?thesis
      using False by (simp add: first_occurrences_snoc)
  qed
qed

lemma insort_key_map:
  "insort_key f (h x) (map h ys) = map h (insort_key (\<lambda>u. f (h u)) x ys)"
  by (induction ys) simp_all

lemma sort_key_map: "sort_key f (map h xs) = map h (sort_key (\<lambda>u. f (h u)) xs)"
  by (induction xs) (simp_all add: insort_key_map)

lemma Object_entries_tabulate:
  "Object_entries (map (\<lambda>w. (w, f w)) us) =
     map (\<lambda>w. (w, f w))
       (sort_key index_rank (filter (\<lambda>w. array_index w \<noteq> None) us)
        @ filter (\<lambda>w. array_index w = None) us)"
  by (simp add: Object_entries_def filter_map comp_def sort_key_map)

lemma insert_sorted_map:
  assumes "\<And>a b. (cmp (h a) (h b) \<le> 0) = (k a \<le> k b)"
  shows "insert_sorted cmp (h x) (map h ys) = map h (insort_key k x ys)"
  by (induction ys) (simp_all add: assms)

lemma Array_sort_map:
  assumes "\<And>a b. (cmp (h a) (h b) \<le> 0) = (k a \<le> k b)"
  shows "Array_sort cmp (map h xs) = map h (sort_key k xs)"
proof -
  have i: "insert_sorted cmp (h x) (map h ys) = map h (insort_key k x ys)" for x ys
    using assms by (rule insert_sorted_map [where cmp = cmp and h = h and k = k])
  show ?thesis
    unfolding Array_sort_def by (induction xs) (simp_all add: i)
qed

lemma extractKeywords_ranking:
  assumes "\<forall>w \<in> set (candidate_words text). w \<notin> set Object_prototype_names"
  shows "extractKeywords text = enumeration_ranking (candidate_words text)"
proof -
  define ws where "ws = candidate_words text"
  define h where "h = (\<lambda>w. (w, JNum (int (count_list ws w))))"
  have c: "count_words ws = map h (first_occurrences ws)"
    unfolding h_def using assms by (intro count_words_tabulate) (simp add: ws_def)
  have e: "Object_entries (count_words ws) = map h (enumeration_order ws)"
    unfolding c h_def enumeration_order_def by (rule Object_entries_tabulate)
  have "(by_count_desc (h a) (h b) \<le> 0) = (frequency_rank ws a \<le> frequency_rank ws b)" for a b
    by (simp add: by_count_desc_def h_def frequency_rank_def)
  then have s: "Array_sort by_count_desc (map h (enumeration_order ws))
      = map h (sort_key (frequency_rank ws) (enumeration_order ws))"
    by (rule Array_sort_map [where cmp = by_count_desc and h = h and k = "frequency_rank ws"])
  have "extractKeywords text
      = map fst (take 5 (map h (sort_key (frequency_rank ws) (enumeration_order ws))))"
    by (simp add: extractKeywords_def ws_def [symmetric] e s)
  also have "\<dots> = take 5 (sort_key (frequency_rank ws) (enumeration_order ws))"
    by (simp add: take_map comp_def h_def)
  finally show ?thesis by (simp add: enumeration_ranking_def ws_def)
qed

lemma enumeration_order_no_index:
  assumes "\<forall>w \<in> set ws. array_index w = None"
  shows "enumeration_order ws = first_occurrences ws"
proof -
  have "filter (\<lambda>w. array_index w \<noteq> None) (first_occurrences ws) = []"
    using assms by (simp add: filter_empty_conv)
  moreover have "filter (\<lambda>w. array_index w = None) (first_occurrences ws) = first_occurrences ws"
    using assms by (simp add: filter_id_conv)
  ultimately show ?thesis by (simp add: enumeration_order_def)
qed

lemma enumeration_ranking_sorted:
  "sorted (map (frequency_rank ws) (enumeration_ranking ws))"
proof -
  have "sorted (map (frequency_rank ws) (sort_key (frequency_rank ws) (enumeration_order ws)))"
    by (rule sorted_sort_key)
  then have "sorted (take 5 (map (frequency_rank ws) (sort_key (frequency_rank ws) (enumeration_order ws))))"
    by (rule sorted_wrt_take)
  then show ?thesis by (simp add: enumeration_ranking_def take_map)
qed

lemma candidate_words_described: "candidate_words text = described_tokens text"
proof -
  have "(\<lambda>w. 4 < length w \<and> w \<notin> set stopwords) = kept_token"
    by (rule ext) (simp add: kept_token_def stopwords_def)
  then show ?thesis
    by (simp add: candidate_words_def described_tokens_def toLowerCase_def)
qed

lemma split_go_chars:
  assumes "p \<in> set (split_go cur sep s)" and "c \<in> set p"
  shows "c \<in> set cur \<or> (c \<in> set s \<and> \<not> is_whitespace c)"
  using assms
proof (induction s arbitrary: cur sep)
  case Nil
  then show ?case by simp
next
  case (Cons a s)
  show ?case
  proof (cases "is_whitespace a")
    case True
    with Cons.prems have "p = rev cur \<or> p \<in> set (split_go [] True s)"
      by (auto split: if_splits)
    then show ?thesis
      using Cons.IH [of "[]" True] Cons.prems(2) by auto
  next
    case False
    with Cons.prems have "p \<in> set (split_go (a # cur) False s)" by simp
    from Cons.IH [OF this Cons.prems(2)] False show ?thesis by auto
  qed
qed

lemma lower_char_not_upper: "\<not> is_upper_case (lower_char c)"
  by (auto simp: is_upper_case_def lower_char_def Let_def)

lemma described_token_chars:
  assumes "w \<in> set (described_tokens text)" and "c \<in> set w"
  shows "is_word_char c \<and> \<not> is_upper_case c"
proof -
  let ?s = "filter (\<lambda>c. is_word_char c \<or> is_whitespace c) (map lower_char text)"
  from assms(1) have "w \<in> set (split_go [] False ?s)"
    by (simp add: described_tokens_def split_whitespace_def)
  from split_go_chars [OF this assms(2)] have "c \<in> set ?s \<and> \<not> is_whitespace c"
    by auto
  then show ?thesis by (auto simp: lower_char_not_upper)
qed

lemma described_token_kept:
  assumes "w \<in> set (described_tokens text)"
  shows "4 < length w" and "w \<notin> {''about'', ''above'', ''across'', ''after'', ''again''}"
  using assms by (simp_all add: described_tokens_def kept_token_def)

text \<open>
  Claim C8, as stated, fails in its tie-breaking: the counts are kept in a plain object,
  whose keys that are array indices are enumerated first, in numeric order, wherever
  they first occurred. In \<^verbatim>\<open>zebra 12345\<close> both words occur once and \<^verbatim>\<open>zebra\<close> comes
  first, yet \<^verbatim>\<open>12345\<close> is ranked first.
\<close>

theorem numeric_token_jumps_the_queue_counterexample:
  "described_tokens ''zebra 12345'' = [''zebra'', ''12345'']
   \<and> first_occurrence_ranking (described_tokens ''zebra 12345'') = [''zebra'', ''12345'']
   \<and> extractKeywords ''zebra 12345'' = [''12345'', ''zebra'']"
  by code_simp

text \<open>
  Claim C8, amended. Keyword extraction is a function of the text alone, returning at
  most 5 tokens. Its tokens are those of the text in lower case, with everything but word
  characters and whitespace removed, split on whitespace, less the tokens of length at
  most 4 and the stopwords \<^verbatim>\<open>about\<close>, \<^verbatim>\<open>above\<close>, \<^verbatim>\<open>across\<close>, \<^verbatim>\<open>after\<close>,
  \<^verbatim>\<open>again\<close>. Provided none of these tokens names a property that every object inherits
  (of these only \<^verbatim>\<open>constructor\<close> and \<^verbatim>\<open>__proto__\<close> are in lower case), the result
  is their ranking by descending frequency, ties being broken by the enumeration order
  of the counting object: tokens that are array indices first, in ascending numeric
  order, then the others by first occurrence. So every keyword returned is longer than 4
  characters, is no stopword and consists of word characters none of which is an upper
  case letter. Without numeric tokens ties are broken by first occurrence alone.
\<close>

theorem keyword_ranking:
  "length (extractKeywords text) \<le> 5
   \<and> ((\<forall>w \<in> set (described_tokens text). w \<notin> set Object_prototype_names)
      \<longrightarrow> extractKeywords text = enumeration_ranking (described_tokens text)
        \<and> sorted (map (frequency_rank (described_tokens text)) (extractKeywords text))
        \<and> (\<forall>w \<in> set (extractKeywords text).
               w \<in> set (described_tokens text)
               \<and> 4 < length w
               \<and> w \<notin> {''about'', ''above'', ''across'', ''after'', ''again''}
               \<and> (\<forall>c \<in> set w. is_word_char c \<and> \<not> is_upper_case c))
        \<and> ((\<forall>w \<in> set (described_tokens text). array_index w = None)
            \<longrightarrow> extractKeywords text = first_occurrence_ranking (described_tokens text)))"
proof (intro conjI impI)
  show "length (extractKeywords text) \<le> 5"
    by (simp add: extractKeywords_def)
next
  assume a: "\<forall>w \<in> set (described_tokens text). w \<notin> set Object_prototype_names"
  then have "\<forall>w \<in> set (candidate_words text). w \<notin> set Object_prototype_names"
    by (simp add: candidate_words_described)
  then have "extractKeywords text = enumeration_ranking (candidate_words text)"
    by (rule extractKeywords_ranking)
  then show e: "extractKeywords text = enumeration_ranking (described_tokens text)"
    by (simp add: candidate_words_described)
  show "sorted (map (frequency_rank (described_tokens text)) (extractKeywords text))"
    unfolding e by (rule enumeration_ranking_sorted)
  have "set (enumeration_order (described_tokens text)) = set (described_tokens text)"
    by (auto simp: enumeration_order_def)
  then have sub: "set (extractKeywords text) \<subseteq> set (described_tokens text)"
    unfolding e enumeration_ranking_def using set_take_subset [of 5] by fastforce
  show "\<forall>w \<in> set (extractKeywords text).
               w \<in> set (described_tokens text)
               \<and> 4 < length w
               \<and> w \<notin> {''about'', ''above'', ''across'', ''after'', ''again''}
               \<and> (\<forall>c \<in> set w. is_word_char c \<and> \<not> is_upper_case c)"
  proof (intro ballI conjI)
    fix w assume "w \<in> set (extractKeywords text)"
    with sub show d: "w \<in> set (described_tokens text)" by blast
    from d show "4 < length w" by (rule described_token_kept)
    from d show "w \<notin> {''about'', ''above'', ''across'', ''after'', ''again''}"
      by (rule described_token_kept)
    fix c assume c: "c \<in> set w"
    from described_token_chars [OF d c] show "is_word_char c" and "\<not> is_upper_case c"
      by simp_all
  qed
  assume "\<forall>w \<in> set (described_tokens text). array_index w = None"
  then show "extractKeywords text = first_occurrence_ranking (described_tokens text)"
    unfolding e by (simp add: enumeration_ranking_def first_occurrence_ranking_def
        enumeration_order_no_index)
qed

theorem keyword_ranking_witness:
  "extractKeywords ''About five lists: sort LISTS above, across Sorting, after 10000 again''
     = [''lists'', ''10000'', ''sorting'']
   \<and> extractKeywords ''Sorting algorithm choice: quicksort''
     = [''sorting'', ''algorithm'', ''choice'', ''quicksort'']"
proof -
  have c: "described_tokens ''About five lists: sort LISTS above, across Sorting, after 10000 again''
     = [''lists'', ''lists'', ''sorting'', ''10000'']"
    by code_simp
  have p: "\<forall>w \<in> set (described_tokens
        ''About five lists: sort LISTS above, across Sorting, after 10000 again'').
         w \<notin> set Object_prototype_names"
    unfolding c by (simp add: Object_prototype_names_def)
  have r: "enumeration_ranking [''lists'', ''lists'', ''sorting'', ''10000'']
     = [''lists'', ''10000'', ''sorting'']"
    by code_simp
  have 1: "extractKeywords ''About five lists: sort LISTS above, across Sorting, after 10000 again''
     = [''lists'', ''10000'', ''sorting'']"
    using keyword_ranking
      [of "''About five lists: sort LISTS above, across Sorting, after 10000 again''"] p
    by (simp add: c r)
  have c2: "described_tokens ''Sorting algorithm choice: quicksort''
     = [''sorting'', ''algorithm'', ''choice'', ''quicksort'']"
    by code_simp
  have p2: "\<forall>w \<in> set (described_tokens ''Sorting algorithm choice: quicksort'').
         w \<notin> set Object_prototype_names"
    unfolding c2 by (simp add: Object_prototype_names_def)
  have i2: "\<forall>w \<in> set (described_tokens ''Sorting algorithm choice: quicksort''). array_index w = None"
    unfolding c2 by (simp add: array_index_def is_digit_def)
  have r2: "first_occurrence_ranking [''sorting'', ''algorithm'', ''choice'', ''quicksort'']
     = [''sorting'', ''algorithm'', ''choice'', ''quicksort'']"
    by code_simp
  have "extractKeywords ''Sorting algorithm choice: quicksort''
     = first_occurrence_ranking (described_tokens ''Sorting algorithm choice: quicksort'')"
    using keyword_ranking [of "''Sorting algorithm choice: quicksort''"] p2 i2 by blast
  then have 2: "extractKeywords ''Sorting algorithm choice: quicksort''
     = [''sorting'', ''algorithm'', ''choice'', ''quicksort'']"
    by (simp add: c2 r2)
  from 1 2 show ?thesis by blast
qed

end
